theory Spec2Isabelle
  imports Complex_Main
begin

unbundle bit_operations_syntax

section \<open>Hand-gesture mouse control: the per-frame pipeline of \<open>capture_loop\<close>\<close>

text \<open>
  The development embeds \<^verbatim>\<open>Hand_gesture_mouse_control.py\<close>: the helper
  \<^verbatim>\<open>map_with_margin\<close> and the body of the \<^verbatim>\<open>while True\<close> loop of
  \<^verbatim>\<open>capture_loop\<close>. The camera, MediaPipe, the mouse controller and the overlay queue are
  external; what the loop reads from them is an input event, and what it does to them is
  an effect in the trace it returns.

  In the frame pipeline Python floats are idealised as exact reals: \<^verbatim>\<open>0.30\<close>, \<^verbatim>\<open>0.10\<close> and
  \<^verbatim>\<open>0.04\<close> are the rationals \<open>3/10\<close>, \<open>1/10\<close> and \<open>4/100\<close>, and IEEE rounding of the
  intermediate results is not modelled there. The mapping helper and the projection to the
  screen are given a second time in double precision, every operation rounded to the
  nearest double (\<open>map_with_margin_f64\<close>, \<open>to_screen_f64\<close>); the values the mapper returns
  are stated over that version. Python integers are \<open>int\<close>; the screen size, which is never
  negative, is \<open>nat\<close>.
\<close>

subsection \<open>User constants (lines 7-9, 233-234)\<close>

definition SMOOTH_ALPHA :: real where
  "SMOOTH_ALPHA = 3 / 10"

definition CAMERA_MARGIN :: real where
  "CAMERA_MARGIN = 1 / 10"

definition CURL_THRESHOLD :: real where
  "CURL_THRESHOLD = 4 / 100"

definition STRONG_UP_THRESHOLD :: real where
  "STRONG_UP_THRESHOLD = 4 / 100"

subsection \<open>Python values and errors\<close>

datatype py_error = ZeroDivisionError | IndexError

text \<open>\<^verbatim>\<open>int(r)\<close> on a float truncates toward zero.\<close>

definition py_int :: "real \<Rightarrow> int" where
  "py_int r = (if 0 \<le> r then \<lfloor>r\<rfloor> else \<lceil>r\<rceil>)"

text \<open>
  A landmark is a MediaPipe \<^verbatim>\<open>NormalizedLandmark\<close> message, read through its fields
  \<^verbatim>\<open>.x\<close> and \<^verbatim>\<open>.y\<close>. The object \<^verbatim>\<open>lm = hand_landmarks.landmark\<close> is the repeated field
  of such messages: a sequence, read by position with \<^verbatim>\<open>lm[i]\<close>.
\<close>

record landmark =
  lm_x :: real
  lm_y :: real

text \<open>
  Python's \<^verbatim>\<open>v in xs\<close> on a sequence holds when some element equals \<open>v\<close>. The values
  that meet in this program are integers and landmark messages; a message never equals
  an integer.
\<close>

datatype py_value = PyInt int | PyLandmark landmark

fun py_eq :: "py_value \<Rightarrow> py_value \<Rightarrow> bool" where
  "py_eq (PyInt a) (PyInt b) = (a = b)"
| "py_eq (PyLandmark a) (PyLandmark b) = (lm_x a = lm_x b \<and> lm_y a = lm_y b)"
| "py_eq (PyInt a) (PyLandmark b) = False"
| "py_eq (PyLandmark a) (PyInt b) = False"

definition py_in :: "py_value \<Rightarrow> py_value list \<Rightarrow> bool" where
  "py_in v xs = list_ex (\<lambda>e. py_eq e v) xs"

text \<open>
  A dict keeps its keys in insertion order; assigning to a key that is present replaces
  the value in place.
\<close>

fun dict_set :: "('k \<times> 'v) list \<Rightarrow> 'k \<Rightarrow> 'v \<Rightarrow> ('k \<times> 'v) list" where
  "dict_set [] k v = [(k, v)]"
| "dict_set ((k', v') # d) k v =
     (if k' = k then (k, v) # d else (k', v') # dict_set d k v)"

subsection \<open>The mapping helper (lines 155-158)\<close>

text \<open>
  \<^verbatim>\<open>
  def map_with_margin(val, margin):
      val = (val - margin) / (1 - 2 * margin)
      return min(max(val, 0), 1)
  \<close>
  The division raises when \<open>1 - 2 * margin\<close> is zero.
\<close>

definition map_with_margin :: "real \<Rightarrow> real \<Rightarrow> py_error + real" where
  "map_with_margin val margin =
     (if 1 - 2 * margin = 0 then Inl ZeroDivisionError
      else Inr (min (max ((val - margin) / (1 - 2 * margin)) 0) 1))"

subsection \<open>State, configuration, effects\<close>

text \<open>The local variables of \<^verbatim>\<open>capture_loop\<close> that survive a frame (lines 175-179).\<close>

record state =
  prev_x :: int
  prev_y :: int
  middle_grabbed :: bool
  pinky_was_down :: bool
  ring_was_down :: bool
  all_fingers_were_down :: bool

definition init_state :: state where
  "init_state = \<lparr>prev_x = 0, prev_y = 0, middle_grabbed = False, pinky_was_down = False,
     ring_was_down = False, all_fingers_were_down = False\<rparr>"

text \<open>The globals \<^verbatim>\<open>scr_w, scr_h = screen_size()\<close> (line 147).\<close>

record config =
  scr_w :: nat
  scr_h :: nat

datatype button = ButtonLeft | ButtonRight

type_synonym tips = "((nat \<times> nat) \<times> (int \<times> int)) list"
type_synonym gestures = "((nat \<times> nat) \<times> bool) list"

text \<open>
  What a frame does to the outside: \<^verbatim>\<open>mouse.position = (x, y)\<close>, \<^verbatim>\<open>mouse.press\<close>,
  \<^verbatim>\<open>mouse.release\<close>, \<^verbatim>\<open>os._exit(0)\<close>, and
  \<^verbatim>\<open>tip_queue.put_nowait((tips_scr, active_gestures))\<close>, in the order of execution.
\<close>

datatype effect =
    MoveTo int int
  | Press button
  | Release button
  | Terminate
  | PutNowait tips gestures

datatype outcome = Next state | Exited | Raised py_error

subsection \<open>Cursor: mapping and smoothing (lines 205-213)\<close>

text \<open>
  \<^verbatim>\<open>
  mapped_x = map_with_margin(index_tip.x, CAMERA_MARGIN)
  mapped_y = map_with_margin(index_tip.y, CAMERA_MARGIN)
  cursor_x = int(mapped_x * scr_w)
  cursor_y = int(mapped_y * scr_h)
  \<close>
  The fingertip projection of lines 289-291 is the same computation on \<^verbatim>\<open>lm[i]\<close>.
\<close>

definition to_screen :: "config \<Rightarrow> landmark \<Rightarrow> py_error + (int \<times> int)" where
  "to_screen cfg p =
     (case map_with_margin (lm_x p) CAMERA_MARGIN of
        Inl e \<Rightarrow> Inl e
      | Inr mapped_x \<Rightarrow>
          (case map_with_margin (lm_y p) CAMERA_MARGIN of
             Inl e \<Rightarrow> Inl e
           | Inr mapped_y \<Rightarrow>
               Inr (py_int (mapped_x * real (scr_w cfg)), py_int (mapped_y * real (scr_h cfg)))))"

text \<open>\<^verbatim>\<open>smooth_x = int(prev_x + SMOOTH_ALPHA * (cursor_x - prev_x))\<close>, and the same for y.\<close>

definition smooth :: "int \<Rightarrow> int \<Rightarrow> int" where
  "smooth prev cursor = py_int (real_of_int prev + SMOOTH_ALPHA * real_of_int (cursor - prev))"

subsection \<open>Finger states (lines 216-238)\<close>

definition middle_down :: "landmark list \<Rightarrow> bool" where
  "middle_down lm = (lm_y (lm ! 12) > lm_y (lm ! 10))"

definition ring_down :: "landmark list \<Rightarrow> bool" where
  "ring_down lm = (lm_y (lm ! 16) > lm_y (lm ! 14))"

definition pinky_down :: "landmark list \<Rightarrow> bool" where
  "pinky_down lm = (lm_y (lm ! 20) > lm_y (lm ! 18))"

definition index_down :: "landmark list \<Rightarrow> bool" where
  "index_down lm = (lm_y (lm ! 8) > lm_y (lm ! 6))"

definition index_strong_up :: "landmark list \<Rightarrow> bool" where
  "index_strong_up lm = (lm_y (lm ! 8) < lm_y (lm ! 6) - STRONG_UP_THRESHOLD)"

definition pinky_strong_up :: "landmark list \<Rightarrow> bool" where
  "pinky_strong_up lm = (lm_y (lm ! 20) < lm_y (lm ! 18) - STRONG_UP_THRESHOLD)"

definition middle_strong_down :: "landmark list \<Rightarrow> bool" where
  "middle_strong_down lm = (lm_y (lm ! 12) > lm_y (lm ! 10) + CURL_THRESHOLD)"

definition ring_strong_down :: "landmark list \<Rightarrow> bool" where
  "ring_strong_down lm = (lm_y (lm ! 16) > lm_y (lm ! 14) + CURL_THRESHOLD)"

text \<open>The condition of line 241.\<close>

definition rock_and_roll :: "landmark list \<Rightarrow> bool" where
  "rock_and_roll lm =
     (index_strong_up lm \<and> pinky_strong_up lm \<and> middle_strong_down lm \<and> ring_strong_down lm)"

subsection \<open>Gesture latches (lines 251-283)\<close>

text \<open>
  \<^verbatim>\<open>
  if middle_down:
      if not middle_grabbed:
          mouse.press(Button.left)
          middle_grabbed = True
  else:
      if middle_grabbed:
          mouse.release(Button.left)
          middle_grabbed = False
  \<close>
  The function returns the effects and the new value of the latch.
\<close>

definition grab :: "bool \<Rightarrow> bool \<Rightarrow> effect list \<times> bool" where
  "grab down grabbed =
     (if down then (if \<not> grabbed then ([Press ButtonLeft], True) else ([], grabbed))
      else (if grabbed then ([Release ButtonLeft], False) else ([], grabbed)))"

text \<open>
  \<^verbatim>\<open>
  if ring_down:
      if not ring_was_down:
          mouse.press(Button.right)
          mouse.release(Button.right)
          ring_was_down = True
  else:
      ring_was_down = False
  \<close>
  and the same block for the pinky with \<^verbatim>\<open>Button.left\<close> (lines 275-283).
\<close>

definition click :: "button \<Rightarrow> bool \<Rightarrow> bool \<Rightarrow> effect list \<times> bool" where
  "click b down was_down =
     (if down then (if \<not> was_down then ([Press b, Release b], True) else ([], was_down))
      else ([], False))"

subsection \<open>Fingertips for the overlay (lines 285-291)\<close>

text \<open>
  \<^verbatim>\<open>
  fingertip_indices = [8, 12, 16, 20]
  for i in fingertip_indices:
      if i in lm:
          mapped_fx = map_with_margin(lm[i].x, CAMERA_MARGIN)
          mapped_fy = map_with_margin(lm[i].y, CAMERA_MARGIN)
          tips_scr[(0, i)] = (int(scr_w * mapped_fx), int(scr_h * mapped_fy))
  \<close>
  The test \<^verbatim>\<open>i in lm\<close> asks whether the integer \<open>i\<close> is an element of the sequence of
  landmark messages. The dict \<^verbatim>\<open>landmarks\<close> of line 200, which is keyed by index, is built
  and never read.
\<close>

fun fingertips :: "config \<Rightarrow> landmark list \<Rightarrow> nat list \<Rightarrow> tips \<Rightarrow> py_error + tips" where
  "fingertips cfg lm [] tips_scr = Inr tips_scr"
| "fingertips cfg lm (i # rest) tips_scr =
     (if py_in (PyInt (int i)) (map PyLandmark lm) then
        (if i < length lm then
           (case to_screen cfg (lm ! i) of
              Inl e \<Rightarrow> Inl e
            | Inr pos \<Rightarrow> fingertips cfg lm rest (dict_set tips_scr (0, i) pos))
         else Inl IndexError)
      else fingertips cfg lm rest tips_scr)"

definition fingertip_indices :: "nat list" where
  "fingertip_indices = [8, 12, 16, 20]"

subsection \<open>One iteration of the loop body (lines 191-320)\<close>

text \<open>
  The part of the body after the exit check: the three latches in the order grab, ring,
  pinky, then the fingertips, then the hand-off to the overlay queue.
\<close>

definition latches_and_tips ::
    "config \<Rightarrow> state \<Rightarrow> landmark list \<Rightarrow> effect list \<Rightarrow> effect list \<times> outcome" where
  "latches_and_tips cfg s lm done =
     (let (e_grab, grabbed) = grab (middle_down lm) (middle_grabbed s);
          (e_ring, ring_was) = click ButtonRight (ring_down lm) (ring_was_down s);
          (e_pinky, pinky_was) = click ButtonLeft (pinky_down lm) (pinky_was_down s);
          active_gestures =
            dict_set (dict_set (dict_set (dict_set [] (0, 8) True) (0, 12) (middle_down lm))
              (0, 16) (ring_down lm)) (0, 20) (pinky_down lm);
          s' = s\<lparr>middle_grabbed := grabbed, ring_was_down := ring_was,
                 pinky_was_down := pinky_was\<rparr>;
          mouse = done @ e_grab @ e_ring @ e_pinky
      in case fingertips cfg lm fingertip_indices [] of
           Inl e \<Rightarrow> (mouse, Raised e)
         | Inr tips_scr \<Rightarrow> (mouse @ [PutNowait tips_scr active_gestures], Next s'))"

text \<open>
  The body for one frame that was read. \<open>None\<close> is a frame without a hand
  (\<^verbatim>\<open>res.multi_hand_landmarks\<close> is empty); \<open>Some lm\<close> carries the landmarks of the first
  hand. The dict comprehension of line 200 reads \<^verbatim>\<open>lm[0]\<close> to \<^verbatim>\<open>lm[20]\<close>, so a shorter
  sequence raises there. With a hand, the pointer is mapped, smoothed and moved first
  (lines 205-213); the finger states and the exit check follow (lines 226-249).
\<close>

definition process_frame ::
    "config \<Rightarrow> state \<Rightarrow> landmark list option \<Rightarrow> effect list \<times> outcome" where
  "process_frame cfg s res =
     (case res of
        None \<Rightarrow> ([PutNowait [] []], Next s)
      | Some lm \<Rightarrow>
          if length lm < 21 then ([], Raised IndexError)
          else
            (case to_screen cfg (lm ! 8) of
               Inl e \<Rightarrow> ([], Raised e)
             | Inr (cursor_x, cursor_y) \<Rightarrow>
                 (let smooth_x = smooth (prev_x s) cursor_x;
                      smooth_y = smooth (prev_y s) cursor_y;
                      moved = [MoveTo smooth_x smooth_y];
                      s1 = s\<lparr>prev_x := smooth_x, prev_y := smooth_y\<rparr>
                  in if rock_and_roll lm then
                       (if \<not> all_fingers_were_down s1 then (moved @ [Terminate], Exited)
                        else latches_and_tips cfg (s1\<lparr>all_fingers_were_down := True\<rparr>) lm moved)
                     else latches_and_tips cfg (s1\<lparr>all_fingers_were_down := False\<rparr>) lm moved)))"

subsection \<open>The loop (lines 183-328)\<close>

text \<open>
  An event is one \<^verbatim>\<open>cap.read()\<close>: a failed read, or a frame with what MediaPipe found in
  it and the key code that \<^verbatim>\<open>cv2.waitKey(1)\<close> returns at the end of the iteration
  (\<open>-1\<close> when no key was pressed).
\<close>

datatype event = ReadFailed | Frame "landmark list option" int

datatype status = Running state | Stopped state | ProcessExited | Crashed py_error

text \<open>\<^verbatim>\<open>cv2.waitKey(1) & 0xFF in (27, 113)\<close>\<close>

definition quit_key :: "int \<Rightarrow> bool" where
  "quit_key key = (key AND 255 = 27 \<or> key AND 255 = 113)"

text \<open>
  The loop over the events that the camera delivers. \<open>Running\<close> is the loop waiting for
  the next event, \<open>Stopped\<close> the \<^verbatim>\<open>break\<close> on ESC or q, \<open>ProcessExited\<close> the exit
  gesture.
\<close>

fun capture_loop :: "config \<Rightarrow> state \<Rightarrow> event list \<Rightarrow> effect list \<times> status" where
  "capture_loop cfg s [] = ([], Running s)"
| "capture_loop cfg s (ReadFailed # es) = capture_loop cfg s es"
| "capture_loop cfg s (Frame res key # es) =
     (case process_frame cfg s res of
        (effs, Exited) \<Rightarrow> (effs, ProcessExited)
      | (effs, Raised e) \<Rightarrow> (effs, Crashed e)
      | (effs, Next s') \<Rightarrow>
          if quit_key key then (effs, Stopped s')
          else (case capture_loop cfg s' es of (effs', st) \<Rightarrow> (effs @ effs', st)))"

text \<open>A run of frames that all show a hand, with no key pressed.\<close>

definition hand_frames :: "landmark list list \<Rightarrow> event list" where
  "hand_frames fs = map (\<lambda>lm. Frame (Some lm) (- 1)) fs"

section \<open>The mapping helper in double precision\<close>

text \<open>
  The claim about the exact values of \<^verbatim>\<open>map_with_margin\<close> needs the arithmetic the code
  runs on: IEEE 754 binary64, every operation rounded to the nearest double, ties to the
  even significand. A finite double is modelled as the real number it denotes. The
  exponent of a binade ranges from -1022 (which also holds the subnormal numbers) to
  1023, and the spacing of the doubles in the binade of exponent \<open>e\<close> is \<open>2 powi (e - 52)\<close>.
  Results beyond the largest double (the infinities) and NaN are not modelled; the inputs
  of the properties below keep every intermediate result under \<open>2 ^ 53\<close>.
\<close>

text \<open>Rounding a real to the nearest integer, a tie to the even one.\<close>

definition rne :: "real \<Rightarrow> int" where
  "rne y =
     (let f = \<lfloor>y\<rfloor>; d = y - real_of_int f
      in if d < 1 / 2 then f else if 1 / 2 < d then f + 1 else if even f then f else f + 1)"

text \<open>The exponent of the binade of \<open>a \<ge> 0\<close>, searched downward from \<open>n - 1022\<close>.\<close>

fun f64_exp_from :: "nat \<Rightarrow> real \<Rightarrow> int" where
  "f64_exp_from 0 a = - 1022"
| "f64_exp_from (Suc n) a =
     (if 2 powi (int (Suc n) - 1022) \<le> a then int (Suc n) - 1022 else f64_exp_from n a)"

definition f64_exp :: "real \<Rightarrow> int" where
  "f64_exp x = f64_exp_from 2045 \<bar>x\<bar>"

text \<open>The double nearest to a real: the result of every arithmetic operation.\<close>

definition f64_round :: "real \<Rightarrow> real" where
  "f64_round x =
     2 powi (f64_exp x - 52) * real_of_int (rne (x / 2 powi (f64_exp x - 52)))"

definition is_f64 :: "real \<Rightarrow> bool" where
  "is_f64 x = (f64_round x = x \<and> \<bar>x\<bar> < 2 powi 1024)"

definition f64_sub :: "real \<Rightarrow> real \<Rightarrow> real" where
  "f64_sub a b = f64_round (a - b)"

definition f64_mul :: "real \<Rightarrow> real \<Rightarrow> real" where
  "f64_mul a b = f64_round (a * b)"

definition f64_div :: "real \<Rightarrow> real \<Rightarrow> real" where
  "f64_div a b = f64_round (a / b)"

text \<open>The literal \<^verbatim>\<open>0.10\<close> of line 9 denotes the double nearest to one tenth.\<close>

definition CAMERA_MARGIN_f64 :: real where
  "CAMERA_MARGIN_f64 = f64_round (1 / 10)"

text \<open>
  \<^verbatim>\<open>
  def map_with_margin(val, margin):
      val = (val - margin) / (1 - 2 * margin)
      return min(max(val, 0), 1)
  \<close>
  with each of the four operations rounded. The integers 1 and 2 convert to doubles
  without rounding, and the division raises when the rounded divisor is zero.
\<close>

definition map_with_margin_f64 :: "real \<Rightarrow> real \<Rightarrow> py_error + real" where
  "map_with_margin_f64 val margin =
     (let divisor = f64_sub 1 (f64_mul 2 margin)
      in if divisor = 0 then Inl ZeroDivisionError
         else Inr (min (max (f64_div (f64_sub val margin) divisor) 0) 1))"

text \<open>
  Lines 206-209 and 289-291 in double precision: the mapped value times the screen
  width or height (an integer, converted without rounding while it is below \<open>2 ^ 53\<close>),
  rounded, then truncated by \<^verbatim>\<open>int\<close>.
\<close>

definition to_screen_f64 :: "config \<Rightarrow> landmark \<Rightarrow> py_error + (int \<times> int)" where
  "to_screen_f64 cfg p =
     (case map_with_margin_f64 (lm_x p) CAMERA_MARGIN_f64 of
        Inl e \<Rightarrow> Inl e
      | Inr mapped_x \<Rightarrow>
          (case map_with_margin_f64 (lm_y p) CAMERA_MARGIN_f64 of
             Inl e \<Rightarrow> Inl e
           | Inr mapped_y \<Rightarrow>
               Inr (py_int (f64_mul mapped_x (real (scr_w cfg))),
                    py_int (f64_mul mapped_y (real (scr_h cfg))))))"

section \<open>Notions used to state the properties\<close>

text \<open>The effects of one hand frame and the state it leaves when the loop goes on.\<close>

definition frame_effects :: "config \<Rightarrow> state \<Rightarrow> landmark list \<Rightarrow> effect list" where
  "frame_effects cfg s lm = fst (process_frame cfg s (Some lm))"

definition frame_state :: "config \<Rightarrow> state \<Rightarrow> landmark list \<Rightarrow> state" where
  "frame_state cfg s lm = (case snd (process_frame cfg s (Some lm)) of Next s' \<Rightarrow> s' | _ \<Rightarrow> s)"

text \<open>The smoothed pointer position that a hand frame computes from the state.\<close>

definition smoothed :: "config \<Rightarrow> state \<Rightarrow> landmark list \<Rightarrow> int \<times> int" where
  "smoothed cfg s lm =
     (case to_screen cfg (lm ! 8) of
        Inr (cursor_x, cursor_y) \<Rightarrow> (smooth (prev_x s) cursor_x, smooth (prev_y s) cursor_y)
      | Inl e \<Rightarrow> (prev_x s, prev_y s))"

text \<open>The gesture map that a hand frame hands to the overlay.\<close>

definition gestures_of :: "landmark list \<Rightarrow> gestures" where
  "gestures_of lm =
     [((0, 8), True), ((0, 12), middle_down lm), ((0, 16), ring_down lm),
      ((0, 20), pinky_down lm)]"

text \<open>A frame the loop body can process: the landmark sequence has its 21 entries.\<close>

definition well_formed :: "landmark list \<Rightarrow> bool" where
  "well_formed lm = (length lm = 21)"

text \<open>The number of false-to-true edges of a signal, \<open>prev\<close> being its value before.\<close>

fun rises :: "bool \<Rightarrow> bool list \<Rightarrow> nat" where
  "rises prev [] = 0"
| "rises prev (d # ds) = (if d \<and> \<not> prev then 1 else 0) + rises d ds"


text \<open>Every press of the button in the trace has the release of that button right after it.\<close>

fun released_at_once :: "button \<Rightarrow> effect list \<Rightarrow> bool" where
  "released_at_once b (e1 # e2 # es) =
     ((e1 \<noteq> Press b \<or> e2 = Release b) \<and> released_at_once b (e2 # es))"
| "released_at_once b [e] = (e \<noteq> Press b)"
| "released_at_once b [] = True"

text \<open>Whether the button is down after the trace, \<open>h\<close> telling whether it was down before.\<close>

fun held :: "button \<Rightarrow> bool \<Rightarrow> effect list \<Rightarrow> bool" where
  "held b h [] = h"
| "held b h (e # es) =
     held b (if e = Press b then True else if e = Release b then False else h) es"


text \<open>A pointer position within the screen rectangle, borders included.\<close>

definition on_screen :: "config \<Rightarrow> int \<Rightarrow> int \<Rightarrow> bool" where
  "on_screen cfg px py =
     (0 \<le> px \<and> px \<le> int (scr_w cfg) \<and> 0 \<le> py \<and> py \<le> int (scr_h cfg))"

subsection \<open>Sample inputs\<close>

text \<open>
  A full-HD screen, and a hand with every landmark at x = 0.5, every joint at y = 0.5
  and the four fingertips (landmarks 8, 12, 16, 20) at the given heights.
\<close>

definition full_hd :: config where
  "full_hd = \<lparr>scr_w = 1920, scr_h = 1080\<rparr>"

definition pt :: "real \<Rightarrow> landmark" where
  "pt v = \<lparr>lm_x = 1 / 2, lm_y = v\<rparr>"

definition hand :: "real \<Rightarrow> real \<Rightarrow> real \<Rightarrow> real \<Rightarrow> landmark list" where
  "hand index_y middle_y ring_y pinky_y =
     [pt (1 / 2), pt (1 / 2), pt (1 / 2), pt (1 / 2), pt (1 / 2), pt (1 / 2), pt (1 / 2),
      pt (1 / 2), pt index_y, pt (1 / 2), pt (1 / 2), pt (1 / 2), pt middle_y, pt (1 / 2),
      pt (1 / 2), pt (1 / 2), pt ring_y, pt (1 / 2), pt (1 / 2), pt (1 / 2), pt pinky_y]"

section \<open>Basic facts about the model\<close>

lemma quit_key_no_key: "\<not> quit_key (- 1)"
  by (simp add: quit_key_def)

lemma map_with_margin_CAMERA:
  "map_with_margin v CAMERA_MARGIN = Inr (min (max ((v - 1 / 10) / (4 / 5)) 0) 1)"
  by (simp add: map_with_margin_def CAMERA_MARGIN_def)

lemma to_screen_eq:
  "to_screen cfg p =
     Inr (py_int (min (max ((lm_x p - 1 / 10) / (4 / 5)) 0) 1 * real (scr_w cfg)),
          py_int (min (max ((lm_y p - 1 / 10) / (4 / 5)) 0) 1 * real (scr_h cfg)))"
  by (simp add: to_screen_def map_with_margin_CAMERA)

text \<open>An integer is never an element of the landmark sequence, so the loop of lines
  287-291 leaves \<^verbatim>\<open>tips_scr\<close> as it found it.\<close>

lemma not_int_in_landmarks: "\<not> py_in (PyInt i) (map PyLandmark lm)"
  by (induction lm) (simp_all add: py_in_def)

lemma fingertips_unchanged: "fingertips cfg lm idxs t = Inr t"
  by (induction idxs arbitrary: t) (simp_all add: not_int_in_landmarks)

lemma hand_length: "length (hand a b c d) = 21"
  by (simp add: hand_def)

lemma hand_nth:
  "hand a b c d ! 8 = pt a" "hand a b c d ! 12 = pt b"
  "hand a b c d ! 16 = pt c" "hand a b c d ! 20 = pt d"
  "hand a b c d ! 6 = pt (1 / 2)" "hand a b c d ! 10 = pt (1 / 2)"
  "hand a b c d ! 14 = pt (1 / 2)" "hand a b c d ! 18 = pt (1 / 2)"
  by (simp_all add: hand_def)

text \<open>What the loop body does on a frame with a hand, read off the definition.\<close>

lemma process_frame_hand:
  assumes "21 \<le> length lm"
  shows "process_frame cfg s (Some lm) =
    (if rock_and_roll lm \<and> \<not> all_fingers_were_down s
     then ([MoveTo (fst (smoothed cfg s lm)) (snd (smoothed cfg s lm)), Terminate], Exited)
     else (MoveTo (fst (smoothed cfg s lm)) (snd (smoothed cfg s lm))
             # fst (grab (middle_down lm) (middle_grabbed s))
             @ fst (click ButtonRight (ring_down lm) (ring_was_down s))
             @ fst (click ButtonLeft (pinky_down lm) (pinky_was_down s))
             @ [PutNowait [] (gestures_of lm)],
           Next \<lparr>prev_x = fst (smoothed cfg s lm), prev_y = snd (smoothed cfg s lm),
                 middle_grabbed = snd (grab (middle_down lm) (middle_grabbed s)),
                 pinky_was_down = snd (click ButtonLeft (pinky_down lm) (pinky_was_down s)),
                 ring_was_down = snd (click ButtonRight (ring_down lm) (ring_was_down s)),
                 all_fingers_were_down = rock_and_roll lm\<rparr>))"
  using assms
  by (simp add: process_frame_def smoothed_def to_screen_eq latches_and_tips_def
        fingertips_unchanged gestures_of_def Let_def split: prod.splits)

section \<open>Frames without a hand\<close>

lemma capture_loop_no_hand:
  "capture_loop cfg s (replicate n (Frame None (- 1))) =
     (replicate n (PutNowait [] []), Running s)"
  by (induction n) (simp_all add: process_frame_def quit_key_no_key)

text \<open>
  Claim C6. A frame without a hand hands an empty fingertip map and an empty gesture
  map to the overlay, emits no mouse action, and leaves the smoother state and the four
  latches as they were; over any run of \<open>n\<close> such frames the trace holds the \<open>n\<close> empty
  payloads only (no pointer move) and the state at the end is the state at the start.
\<close>

theorem no_hand_frame_holds_state:
  "process_frame cfg s None = ([PutNowait [] []], Next s)
   \<and> capture_loop cfg s (replicate n (Frame None (- 1))) =
       (replicate n (PutNowait [] []), Running s)"
  by (simp add: capture_loop_no_hand) (simp add: process_frame_def)

section \<open>Facts shared by the gesture properties\<close>

lemma hand_frames_Nil: "hand_frames [] = []"
  by (simp add: hand_frames_def)

lemma hand_frames_Cons: "hand_frames (f # fs) = Frame (Some f) (- 1) # hand_frames fs"
  by (simp add: hand_frames_def)

lemma no_Terminate_grab: "Terminate \<notin> set (fst (grab d g))"
  by (simp add: grab_def)

lemma no_Terminate_click: "Terminate \<notin> set (fst (click b d w))"
  by (simp add: click_def)

lemma count_Terminate_grab: "count_list (fst (grab d g)) Terminate = 0"
  by (simp add: grab_def)

lemma count_Terminate_click: "count_list (fst (click b d w)) Terminate = 0"
  by (simp add: click_def)

lemma well_formed_hand: "well_formed (hand a b c d)"
  by (simp add: well_formed_def hand_length)

lemma rock_and_roll_hand:
  "rock_and_roll (hand a b c d) = (a < 23 / 50 \<and> d < 23 / 50 \<and> 27 / 50 < b \<and> 27 / 50 < c)"
  by (auto simp add: rock_and_roll_def index_strong_up_def pinky_strong_up_def
        middle_strong_down_def ring_strong_down_def hand_nth pt_def STRONG_UP_THRESHOLD_def
        CURL_THRESHOLD_def)

lemma smoothed_full_hd_init:
  "smoothed full_hd init_state (hand a b c d) =
     (288, smooth 0 (py_int (min (max ((a - 1 / 10) / (4 / 5)) 0) 1 * 1080)))"
  by (simp add: smoothed_def to_screen_eq hand_nth pt_def full_hd_def init_state_def
        smooth_def SMOOTH_ALPHA_def py_int_def)

section \<open>The exit gesture\<close>

text \<open>
  Claim C1. Let \<open>p\<close> and \<open>f\<close> be consecutive frames with a hand, \<open>f\<close> meeting the four
  strong conditions of the exit gesture and \<open>p\<close> not. From any state, \<open>p\<close> is processed
  without a terminate signal and leaves the latch \<open>all_fingers_were_down\<close> clear; the frame
  \<open>f\<close> after it emits exactly one terminate signal and ends the process. Whatever frames
  follow (a second qualifying frame among them), the whole run holds exactly one terminate
  signal. A qualifying frame that finds the latch set emits no terminate signal and
  leaves the latch set.
\<close>

theorem exit_gesture_fires_once:
  assumes "well_formed p" and "well_formed f" and "\<not> rock_and_roll p" and "rock_and_roll f"
  shows "(\<exists>effs s1. process_frame cfg s (Some p) = (effs, Next s1)
           \<and> Terminate \<notin> set effs \<and> \<not> all_fingers_were_down s1
           \<and> count_list (fst (process_frame cfg s1 (Some f))) Terminate = 1
           \<and> snd (process_frame cfg s1 (Some f)) = Exited)
         \<and> count_list (fst (capture_loop cfg s (hand_frames (p # f # rest)))) Terminate = 1
         \<and> snd (capture_loop cfg s (hand_frames (p # f # rest))) = ProcessExited
         \<and> (all_fingers_were_down s \<longrightarrow>
              Terminate \<notin> set (fst (process_frame cfg s (Some f)))
              \<and> (\<exists>s2. snd (process_frame cfg s (Some f)) = Next s2 \<and> all_fingers_were_down s2))"
proof -
  have lp: "21 \<le> length p" and lf: "21 \<le> length f"
    using assms by (simp_all add: well_formed_def)
  show ?thesis
    using assms(3,4)
    by (simp add: process_frame_hand[OF lp] process_frame_hand[OF lf] hand_frames_Cons
          quit_key_no_key no_Terminate_grab no_Terminate_click
          count_Terminate_grab count_Terminate_click)
qed

theorem exit_gesture_fires_once_witness:
  "well_formed (hand (1 / 2) (1 / 2) (1 / 2) (1 / 2))
   \<and> well_formed (hand (2 / 5) (3 / 5) (3 / 5) (2 / 5))
   \<and> \<not> rock_and_roll (hand (1 / 2) (1 / 2) (1 / 2) (1 / 2))
   \<and> rock_and_roll (hand (2 / 5) (3 / 5) (3 / 5) (2 / 5))
   \<and> count_list (fst (capture_loop full_hd init_state
        (hand_frames [hand (1 / 2) (1 / 2) (1 / 2) (1 / 2), hand (2 / 5) (3 / 5) (3 / 5) (2 / 5),
                      hand (2 / 5) (3 / 5) (3 / 5) (2 / 5)]))) Terminate = 1"
  using exit_gesture_fires_once [of "hand (1 / 2) (1 / 2) (1 / 2) (1 / 2)"
      "hand (2 / 5) (3 / 5) (3 / 5) (2 / 5)" full_hd init_state
      "[hand (2 / 5) (3 / 5) (3 / 5) (2 / 5)]"]
  by (simp add: well_formed_hand rock_and_roll_hand)

section \<open>The order of the steps within a frame\<close>

text \<open>
  Claim C7 puts the exit check before the mapping and smoothing of the pointer, so that
  a frame that triggers the exit would do nothing but terminate. On the first frame of a
  session on a 1920 x 1080 screen, a hand showing the exit gesture with its index tip at
  (0.5, 0.4) first moves the pointer to (288, 121) and terminates after that.
\<close>

theorem exit_frame_moves_pointer_first:
  "process_frame full_hd init_state (Some (hand (2 / 5) (3 / 5) (3 / 5) (2 / 5))) =
     ([MoveTo 288 121, Terminate], Exited)"
  by (simp add: process_frame_hand hand_length rock_and_roll_hand init_state_def
        smoothed_full_hd_init [unfolded init_state_def] smooth_def SMOOTH_ALPHA_def py_int_def)

text \<open>
  Claim C7, amended. On every frame with a hand, the pointer is mapped, smoothed and
  moved first. The exit gesture is evaluated after that: when it triggers, the terminate
  signal is the only further effect, with no latch update and no hand-off to the overlay.
  Otherwise the grab, the right click and the left click follow in this order, the payload
  with the gesture map is handed to the overlay last, and the next state carries the
  smoothed position and the updated latches.
\<close>

theorem frame_steps_in_order:
  assumes "well_formed lm"
  shows "\<exists>rest. fst (process_frame cfg s (Some lm)) =
             MoveTo (fst (smoothed cfg s lm)) (snd (smoothed cfg s lm)) # rest
         \<and> (if rock_and_roll lm \<and> \<not> all_fingers_were_down s
            then rest = [Terminate] \<and> snd (process_frame cfg s (Some lm)) = Exited
            else \<exists>tips_scr s'.
                   rest = fst (grab (middle_down lm) (middle_grabbed s))
                        @ fst (click ButtonRight (ring_down lm) (ring_was_down s))
                        @ fst (click ButtonLeft (pinky_down lm) (pinky_was_down s))
                        @ [PutNowait tips_scr (gestures_of lm)]
                   \<and> snd (process_frame cfg s (Some lm)) = Next s'
                   \<and> (prev_x s', prev_y s') = smoothed cfg s lm
                   \<and> all_fingers_were_down s' = rock_and_roll lm
                   \<and> middle_grabbed s' = snd (grab (middle_down lm) (middle_grabbed s))
                   \<and> ring_was_down s' = snd (click ButtonRight (ring_down lm) (ring_was_down s))
                   \<and> pinky_was_down s' = snd (click ButtonLeft (pinky_down lm) (pinky_was_down s)))"
proof -
  have l: "21 \<le> length lm"
    using assms by (simp add: well_formed_def)
  show ?thesis
    by (simp add: process_frame_hand[OF l])
qed

theorem frame_steps_in_order_witness:
  "well_formed (hand (1 / 2) (1 / 2) (1 / 2) (1 / 2))
   \<and> hd (fst (process_frame full_hd init_state (Some (hand (1 / 2) (1 / 2) (1 / 2) (1 / 2)))))
       = MoveTo 288 162"
proof -
  have w: "well_formed (hand (1 / 2) (1 / 2) (1 / 2) (1 / 2))"
    by (rule well_formed_hand)
  from frame_steps_in_order [OF w, of full_hd init_state]
  obtain rest where
    "fst (process_frame full_hd init_state (Some (hand (1 / 2) (1 / 2) (1 / 2) (1 / 2)))) =
       MoveTo (fst (smoothed full_hd init_state (hand (1 / 2) (1 / 2) (1 / 2) (1 / 2))))
              (snd (smoothed full_hd init_state (hand (1 / 2) (1 / 2) (1 / 2) (1 / 2)))) # rest"
    by blast
  then show ?thesis
    using w by (simp add: smoothed_full_hd_init smooth_def SMOOTH_ALPHA_def py_int_def)
qed

section \<open>The fingertip map\<close>

text \<open>
  Claim C8 expects the four tracked fingertips in the fingertip map of every frame with
  a hand. On the first frame of a session on a 1920 x 1080 screen, with every landmark
  of the hand at (0.5, 0.5), the payload handed to the overlay has an empty fingertip
  map: the guard \<^verbatim>\<open>if i in lm\<close> of line 288 never holds.
\<close>

theorem fingertip_map_stays_empty:
  "process_frame full_hd init_state (Some (hand (1 / 2) (1 / 2) (1 / 2) (1 / 2))) =
     ([MoveTo 288 162,
       PutNowait [] [((0, 8), True), ((0, 12), False), ((0, 16), False), ((0, 20), False)]],
      Next \<lparr>prev_x = 288, prev_y = 162, middle_grabbed = False, pinky_was_down = False,
             ring_was_down = False, all_fingers_were_down = False\<rparr>)"
  by (simp add: process_frame_hand hand_length hand_nth rock_and_roll_hand pt_def
        init_state_def smoothed_full_hd_init [unfolded init_state_def] smooth_def
        SMOOTH_ALPHA_def py_int_def grab_def click_def gestures_of_def
        middle_down_def ring_down_def pinky_down_def)

section \<open>Runs of frames that do not trigger the exit gesture\<close>

lemma snd_grab: "snd (grab d g) = d"
  by (simp add: grab_def)

lemma snd_click: "snd (click b d w) = d"
  by (simp add: click_def)

lemma frame_effects_calm:
  assumes "well_formed f" and "\<not> rock_and_roll f"
  shows "frame_effects cfg s f =
           MoveTo (fst (smoothed cfg s f)) (snd (smoothed cfg s f))
             # fst (grab (middle_down f) (middle_grabbed s))
             @ fst (click ButtonRight (ring_down f) (ring_was_down s))
             @ fst (click ButtonLeft (pinky_down f) (pinky_was_down s))
             @ [PutNowait [] (gestures_of f)]"
  using assms by (simp add: frame_effects_def well_formed_def process_frame_hand)

lemma frame_state_calm:
  assumes "well_formed f" and "\<not> rock_and_roll f"
  shows "frame_state cfg s f =
           \<lparr>prev_x = fst (smoothed cfg s f), prev_y = snd (smoothed cfg s f),
             middle_grabbed = middle_down f, pinky_was_down = pinky_down f,
             ring_was_down = ring_down f, all_fingers_were_down = False\<rparr>"
  using assms by (simp add: frame_state_def well_formed_def process_frame_hand snd_grab snd_click)

lemma process_frame_calm:
  assumes "well_formed f" and "\<not> rock_and_roll f"
  shows "process_frame cfg s (Some f) = (frame_effects cfg s f, Next (frame_state cfg s f))"
  using assms by (simp add: frame_effects_def frame_state_def well_formed_def process_frame_hand)

lemma capture_loop_calm_Cons:
  assumes "well_formed f" and "\<not> rock_and_roll f"
  shows "capture_loop cfg s (hand_frames (f # fs)) =
           (frame_effects cfg s f @ fst (capture_loop cfg (frame_state cfg s f) (hand_frames fs)),
            snd (capture_loop cfg (frame_state cfg s f) (hand_frames fs)))"
  by (simp add: hand_frames_Cons process_frame_calm[OF assms] quit_key_no_key split: prod.splits)


lemma held_append: "held b h (xs @ ys) = held b (held b h xs) ys"
  by (induction xs arbitrary: h) simp_all




lemma frame_count_left:
  assumes "well_formed f" and "\<not> rock_and_roll f"
  shows "count_list (frame_effects cfg s f) (Press ButtonLeft) =
           (if middle_down f \<and> \<not> middle_grabbed s then 1 else 0)
           + (if pinky_down f \<and> \<not> pinky_was_down s then 1 else 0)"
    and "count_list (frame_effects cfg s f) (Release ButtonLeft) =
           (if \<not> middle_down f \<and> middle_grabbed s then 1 else 0)
           + (if pinky_down f \<and> \<not> pinky_was_down s then 1 else 0)"
  by (simp_all add: frame_effects_calm[OF assms] grab_def click_def)



lemma downs_hand:
  "middle_down (hand a b c d) = (1 / 2 < b)"
  "ring_down (hand a b c d) = (1 / 2 < c)"
  "pinky_down (hand a b c d) = (1 / 2 < d)"
  by (simp_all add: middle_down_def ring_down_def pinky_down_def hand_nth pt_def)

lemma run_middle_down:
  assumes "\<forall>f \<in> set fs. well_formed f \<and> \<not> rock_and_roll f" and "\<forall>f \<in> set fs. middle_down f"
  shows "\<exists>E s'. capture_loop cfg s (hand_frames fs) = (E, Running s')
      \<and> count_list E (Press ButtonLeft) =
          (if middle_grabbed s \<or> fs = [] then 0 else 1) + rises (pinky_was_down s) (map pinky_down fs)
      \<and> count_list E (Release ButtonLeft) = rises (pinky_was_down s) (map pinky_down fs)
      \<and> middle_grabbed s' = (middle_grabbed s \<or> fs \<noteq> [])"
  using assms
proof (induction fs arbitrary: s)
  case Nil
  then show ?case by (simp add: hand_frames_Nil)
next
  case (Cons f fs)
  have wf: "well_formed f" and nr: "\<not> rock_and_roll f" and md: "middle_down f"
    using Cons.prems by simp_all
  have rest: "\<forall>f \<in> set fs. well_formed f \<and> \<not> rock_and_roll f" "\<forall>f \<in> set fs. middle_down f"
    using Cons.prems by simp_all
  have mg: "middle_grabbed (frame_state cfg s f)"
    and pw: "pinky_was_down (frame_state cfg s f) = pinky_down f"
    using md by (simp_all add: frame_state_calm[OF wf nr])
  from Cons.IH [OF rest, of "frame_state cfg s f"] mg
  obtain E s' where E: "capture_loop cfg (frame_state cfg s f) (hand_frames fs) = (E, Running s')"
    and pl: "count_list E (Press ButtonLeft) =
               rises (pinky_was_down (frame_state cfg s f)) (map pinky_down fs)"
    and rl: "count_list E (Release ButtonLeft) =
               rises (pinky_was_down (frame_state cfg s f)) (map pinky_down fs)"
    and g': "middle_grabbed s'"
    by auto
  have loop: "capture_loop cfg s (hand_frames (f # fs)) = (frame_effects cfg s f @ E, Running s')"
    by (simp add: capture_loop_calm_Cons[OF wf nr] E)
  have c1: "count_list (frame_effects cfg s f @ E) (Press ButtonLeft) =
          (if middle_grabbed s \<or> f # fs = [] then 0 else 1)
          + rises (pinky_was_down s) (map pinky_down (f # fs))"
    using md by (simp add: frame_count_left[OF wf nr] pl pw)
  have c2: "count_list (frame_effects cfg s f @ E) (Release ButtonLeft) =
          rises (pinky_was_down s) (map pinky_down (f # fs))"
    using md by (simp add: frame_count_left[OF wf nr] rl pw)
  show ?case
    using loop c1 c2 g' by auto
qed

lemma capture_loop_append:
  "snd (capture_loop cfg s es1) = Running s1 \<Longrightarrow>
   capture_loop cfg s (es1 @ es2) =
     (fst (capture_loop cfg s es1) @ fst (capture_loop cfg s1 es2), snd (capture_loop cfg s1 es2))"
proof (induction cfg s es1 rule: capture_loop.induct)
  case (1 cfg s)
  then show ?case by simp
next
  case (2 cfg s es)
  then show ?case by simp
next
  case (3 cfg s res key es)
  then show ?case
    by (auto split: prod.splits outcome.splits if_splits)
qed

lemma single_calm_frame:
  assumes "well_formed f" and "\<not> rock_and_roll f"
  shows "capture_loop cfg s (hand_frames [f]) = (frame_effects cfg s f, Running (frame_state cfg s f))"
  by (simp add: capture_loop_calm_Cons[OF assms] hand_frames_Nil)

lemma hand_frames_append: "hand_frames (xs @ ys) = hand_frames xs @ hand_frames ys"
  by (simp add: hand_frames_def)

section \<open>The ring and pinky clicks\<close>




section \<open>The middle-finger grab\<close>

text \<open>
  Claim C2 counts exactly one press(left) and no release(left) while the middle finger
  stays down. On the first frame of a session, a hand with the middle finger and the
  pinky both down emits press(left) for the grab and then press(left), release(left) for
  the pinky's click: two presses and one release of the left button in a frame of the
  grab.
\<close>

theorem pinky_click_during_grab:
  "\<not> middle_grabbed init_state \<and> middle_down (hand (1 / 2) (3 / 5) (1 / 2) (3 / 5))
   \<and> capture_loop full_hd init_state (hand_frames [hand (1 / 2) (3 / 5) (1 / 2) (3 / 5)]) =
       ([MoveTo 288 162, Press ButtonLeft, Press ButtonLeft, Release ButtonLeft,
         PutNowait [] [((0, 8), True), ((0, 12), True), ((0, 16), False), ((0, 20), True)]],
        Running \<lparr>prev_x = 288, prev_y = 162, middle_grabbed = True, pinky_was_down = True,
                  ring_was_down = False, all_fingers_were_down = False\<rparr>)"
  by (simp add: single_calm_frame well_formed_hand rock_and_roll_hand frame_effects_calm
        frame_state_calm downs_hand init_state_def smoothed_full_hd_init [unfolded init_state_def]
        smooth_def SMOOTH_ALPHA_def py_int_def grab_def click_def gestures_of_def)

text \<open>
  Claim C2, amended. Take frames with a hand of which none triggers the exit gesture, and
  count apart the left click (one press(left), one release(left)) that each false-to-true
  edge of the pinky's down state adds. Then \<open>N \<ge> 1\<close> consecutive middle-down frames that
  start with the grab latch clear emit exactly one press(left) and no release(left) and
  leave the latch set; the first middle-up frame after them emits exactly one
  release(left) and no press(left) and clears the latch; a middle-down frame after that
  emits press(left) again.
\<close>

theorem grab_is_level_triggered:
  assumes calm: "\<forall>f \<in> set (fs @ [g, h]). well_formed f \<and> \<not> rock_and_roll f"
    and ne: "fs \<noteq> []"
    and down: "\<forall>f \<in> set fs. middle_down f"
    and up: "\<not> middle_down g"
    and again: "middle_down h"
    and clear: "\<not> middle_grabbed s"
  shows "\<exists>E1 s1 E2 s2 E3 s3.
      capture_loop cfg s (hand_frames fs) = (E1, Running s1)
    \<and> capture_loop cfg s1 (hand_frames [g]) = (E2, Running s2)
    \<and> capture_loop cfg s2 (hand_frames [h]) = (E3, Running s3)
    \<and> capture_loop cfg s (hand_frames (fs @ [g, h])) = (E1 @ E2 @ E3, Running s3)
    \<and> count_list E1 (Press ButtonLeft) = 1 + rises (pinky_was_down s) (map pinky_down fs)
    \<and> count_list E1 (Release ButtonLeft) = rises (pinky_was_down s) (map pinky_down fs)
    \<and> middle_grabbed s1
    \<and> count_list E2 (Release ButtonLeft) = 1 + rises (pinky_was_down s1) [pinky_down g]
    \<and> count_list E2 (Press ButtonLeft) = rises (pinky_was_down s1) [pinky_down g]
    \<and> \<not> middle_grabbed s2
    \<and> count_list E3 (Press ButtonLeft) = 1 + rises (pinky_was_down s2) [pinky_down h]
    \<and> count_list E3 (Release ButtonLeft) = rises (pinky_was_down s2) [pinky_down h]
    \<and> middle_grabbed s3"
proof -
  have cfs: "\<forall>f \<in> set fs. well_formed f \<and> \<not> rock_and_roll f"
    and wg: "well_formed g" and ng: "\<not> rock_and_roll g"
    and wh: "well_formed h" and nh: "\<not> rock_and_roll h"
    using calm by simp_all
  from run_middle_down [OF cfs down, of cfg s] ne clear
  obtain E1 s1 where E1: "capture_loop cfg s (hand_frames fs) = (E1, Running s1)"
    and p1: "count_list E1 (Press ButtonLeft) = 1 + rises (pinky_was_down s) (map pinky_down fs)"
    and r1: "count_list E1 (Release ButtonLeft) = rises (pinky_was_down s) (map pinky_down fs)"
    and g1: "middle_grabbed s1"
    by auto
  define E2 where "E2 = frame_effects cfg s1 g"
  define s2 where "s2 = frame_state cfg s1 g"
  define E3 where "E3 = frame_effects cfg s2 h"
  define s3 where "s3 = frame_state cfg s2 h"
  have L2: "capture_loop cfg s1 (hand_frames [g]) = (E2, Running s2)"
    unfolding E2_def s2_def by (rule single_calm_frame[OF wg ng])
  have L3: "capture_loop cfg s2 (hand_frames [h]) = (E3, Running s3)"
    unfolding E3_def s3_def by (rule single_calm_frame[OF wh nh])
  have g2: "\<not> middle_grabbed s2"
    using up by (simp add: s2_def frame_state_calm[OF wg ng])
  have g3: "middle_grabbed s3"
    using again by (simp add: s3_def frame_state_calm[OF wh nh])
  have r2: "count_list E2 (Release ButtonLeft) = 1 + rises (pinky_was_down s1) [pinky_down g]"
    and p2: "count_list E2 (Press ButtonLeft) = rises (pinky_was_down s1) [pinky_down g]"
    using up g1 by (simp_all add: E2_def frame_count_left[OF wg ng])
  have p3: "count_list E3 (Press ButtonLeft) = 1 + rises (pinky_was_down s2) [pinky_down h]"
    and r3: "count_list E3 (Release ButtonLeft) = rises (pinky_was_down s2) [pinky_down h]"
    using again g2 by (simp_all add: E3_def frame_count_left[OF wh nh])
  have L23: "capture_loop cfg s1 (hand_frames [g, h]) = (E2 @ E3, Running s3)"
    using capture_loop_append [of cfg s1 "hand_frames [g]" s2 "hand_frames [h]"] L2 L3
    by (simp add: hand_frames_def)
  have Lall: "capture_loop cfg s (hand_frames (fs @ [g, h])) = (E1 @ E2 @ E3, Running s3)"
    using capture_loop_append [of cfg s "hand_frames fs" s1 "hand_frames [g, h]"] E1 L23
    by (simp add: hand_frames_append)
  show ?thesis
    using E1 L2 L3 Lall p1 r1 g1 r2 p2 g2 p3 r3 g3 by blast
qed

theorem grab_is_level_triggered_witness:
  "well_formed (hand (1 / 2) (3 / 5) (1 / 2) (1 / 2))
   \<and> \<not> rock_and_roll (hand (1 / 2) (3 / 5) (1 / 2) (1 / 2))
   \<and> well_formed (hand (1 / 2) (2 / 5) (1 / 2) (1 / 2))
   \<and> \<not> rock_and_roll (hand (1 / 2) (2 / 5) (1 / 2) (1 / 2))
   \<and> middle_down (hand (1 / 2) (3 / 5) (1 / 2) (1 / 2))
   \<and> \<not> middle_down (hand (1 / 2) (2 / 5) (1 / 2) (1 / 2))
   \<and> \<not> middle_grabbed init_state
   \<and> count_list (fst (capture_loop full_hd init_state
        (hand_frames [hand (1 / 2) (3 / 5) (1 / 2) (1 / 2), hand (1 / 2) (3 / 5) (1 / 2) (1 / 2),
                      hand (1 / 2) (3 / 5) (1 / 2) (1 / 2)]))) (Press ButtonLeft) = 1
   \<and> count_list (fst (capture_loop full_hd init_state
        (hand_frames [hand (1 / 2) (3 / 5) (1 / 2) (1 / 2), hand (1 / 2) (3 / 5) (1 / 2) (1 / 2),
                      hand (1 / 2) (3 / 5) (1 / 2) (1 / 2)]))) (Release ButtonLeft) = 0"
proof -
  let ?m = "hand (1 / 2) (3 / 5) (1 / 2) (1 / 2)"
  let ?u = "hand (1 / 2) (2 / 5) (1 / 2) (1 / 2)"
  have calm: "\<forall>f \<in> set ([?m, ?m, ?m] @ [?u, ?m]). well_formed f \<and> \<not> rock_and_roll f"
    by (simp add: well_formed_hand rock_and_roll_hand)
  have ne: "[?m, ?m, ?m] \<noteq> []" by simp
  have down: "\<forall>f \<in> set [?m, ?m, ?m]. middle_down f" by (simp add: downs_hand)
  have up: "\<not> middle_down ?u" by (simp add: downs_hand)
  have again: "middle_down ?m" by (simp add: downs_hand)
  have clear: "\<not> middle_grabbed init_state" by (simp add: init_state_def)
  from grab_is_level_triggered [OF calm ne down up again clear, of full_hd]
  obtain E1 s1 where "capture_loop full_hd init_state (hand_frames [?m, ?m, ?m]) = (E1, Running s1)"
    and "count_list E1 (Press ButtonLeft) =
           1 + rises (pinky_was_down init_state) (map pinky_down [?m, ?m, ?m])"
    and "count_list E1 (Release ButtonLeft) =
           rises (pinky_was_down init_state) (map pinky_down [?m, ?m, ?m])"
    by blast
  then have "count_list (fst (capture_loop full_hd init_state (hand_frames [?m, ?m, ?m])))
               (Press ButtonLeft) = 1
           \<and> count_list (fst (capture_loop full_hd init_state (hand_frames [?m, ?m, ?m])))
               (Release ButtonLeft) = 0"
    by (simp add: downs_hand init_state_def)
  then show ?thesis
    using again up clear by (simp add: well_formed_hand rock_and_roll_hand)
qed

section \<open>The mouse buttons across frames\<close>

lemma process_frame_short:
  "length lm < 21 \<Longrightarrow> process_frame cfg s (Some lm) = ([], Raised IndexError)"
  by (simp add: process_frame_def)

lemma process_frame_None: "process_frame cfg s None = ([PutNowait [] []], Next s)"
  by (simp add: process_frame_def)

lemma frame_right_released: "released_at_once ButtonRight (fst (process_frame cfg s res))"
proof (cases res)
  case None
  then show ?thesis by (simp add: process_frame_None)
next
  case (Some lm)
  show ?thesis
  proof (cases "length lm < 21")
    case True
    then show ?thesis using Some by (simp add: process_frame_short)
  next
    case False
    then have "21 \<le> length lm" by simp
    then show ?thesis
      using Some by (simp add: process_frame_hand grab_def click_def)
  qed
qed

lemma frame_held_right: "\<not> held ButtonRight False (fst (process_frame cfg s res))"
proof (cases res)
  case None
  then show ?thesis by (simp add: process_frame_None)
next
  case (Some lm)
  show ?thesis
  proof (cases "length lm < 21")
    case True
    then show ?thesis using Some by (simp add: process_frame_short)
  next
    case False
    then have "21 \<le> length lm" by simp
    then show ?thesis
      using Some by (simp add: process_frame_hand grab_def click_def)
  qed
qed

lemma frame_held_left:
  assumes "process_frame cfg s res = (effs, Next s')" and "h \<longrightarrow> middle_grabbed s"
  shows "held ButtonLeft h effs \<longrightarrow> middle_grabbed s'"
proof (cases res)
  case None
  then show ?thesis using assms by (auto simp add: process_frame_None)
next
  case (Some lm)
  show ?thesis
  proof (cases "length lm < 21")
    case True
    then show ?thesis using Some assms by (simp add: process_frame_short)
  next
    case False
    then have "21 \<le> length lm" by simp
    then show ?thesis
      using Some assms
      by (auto simp add: process_frame_hand grab_def click_def split: if_splits)
  qed
qed

lemma run_held_right: "\<not> held ButtonRight False (fst (capture_loop cfg s es))"
proof (induction cfg s es rule: capture_loop.induct)
  case (1 cfg s)
  then show ?case by simp
next
  case (2 cfg s es)
  then show ?case by simp
next
  case (3 cfg s res key es)
  obtain effs out where pf: "process_frame cfg s res = (effs, out)"
    by (cases "process_frame cfg s res")
  have hr: "held ButtonRight False effs = False"
    using frame_held_right [of cfg s res] pf by simp
  show ?case
  proof (cases out)
    case (Next s')
    show ?thesis
    proof (cases "quit_key key")
      case True
      then show ?thesis using pf Next hr by simp
    next
      case False
      then show ?thesis
        using pf Next hr "3.IH" [OF pf [symmetric] Next False]
        by (simp add: held_append case_prod_beta)
    qed
  next
    case Exited
    then show ?thesis using pf hr by simp
  next
    case (Raised e)
    then show ?thesis using pf hr by simp
  qed
qed

lemma run_held_left:
  assumes "h \<longrightarrow> middle_grabbed s"
    and "snd (capture_loop cfg s es) = Running s' \<or> snd (capture_loop cfg s es) = Stopped s'"
  shows "held ButtonLeft h (fst (capture_loop cfg s es)) \<longrightarrow> middle_grabbed s'"
  using assms
proof (induction cfg s es arbitrary: h rule: capture_loop.induct)
  case (1 cfg s)
  then show ?case by simp
next
  case (2 cfg s es)
  then show ?case by simp
next
  case (3 cfg s res key es)
  obtain effs out where pf: "process_frame cfg s res = (effs, out)"
    by (cases "process_frame cfg s res")
  show ?case
  proof (cases out)
    case (Next s1)
    have inv: "held ButtonLeft h effs \<longrightarrow> middle_grabbed s1"
      using frame_held_left [of cfg s res effs s1 h] pf Next "3.prems"(1) by simp
    show ?thesis
    proof (cases "quit_key key")
      case True
      then show ?thesis using pf Next inv "3.prems"(2) by simp
    next
      case False
      have st: "snd (capture_loop cfg s1 es) = Running s' \<or> snd (capture_loop cfg s1 es) = Stopped s'"
        using "3.prems"(2) pf Next False by (simp add: case_prod_beta)
      from "3.IH" [OF pf [symmetric] Next False inv st]
      show ?thesis
        using pf Next False by (simp add: held_append case_prod_beta)
    qed
  next
    case Exited
    then show ?thesis using pf "3.prems"(2) by simp
  next
    case (Raised e)
    then show ?thesis using pf "3.prems"(2) by simp
  qed
qed

text \<open>
  Claim C10. In the effects of any one iteration of the loop body, every press(right) has
  release(right) right after it. Hence after any run of the loop from the initial state
  (whatever the events, and however it ends) the right button is not down; and when the
  left button is down while the loop is still alive, the grab latch \<open>middle_grabbed\<close> is
  set: only the grab's press(left) stays across frames.
\<close>

theorem right_button_never_stays_down:
  "released_at_once ButtonRight (fst (process_frame cfg s res))
   \<and> \<not> held ButtonRight False (fst (capture_loop cfg init_state es))
   \<and> (\<forall>s'. (snd (capture_loop cfg init_state es) = Running s'
               \<or> snd (capture_loop cfg init_state es) = Stopped s')
             \<and> held ButtonLeft False (fst (capture_loop cfg init_state es))
          \<longrightarrow> middle_grabbed s')"
  using run_held_left [of False init_state cfg es]
  by (simp add: frame_right_released run_held_right)

theorem right_button_never_stays_down_witness:
  "held ButtonLeft False
     (fst (capture_loop full_hd init_state (hand_frames [hand (1 / 2) (3 / 5) (3 / 5) (1 / 2)])))
   \<and> snd (capture_loop full_hd init_state (hand_frames [hand (1 / 2) (3 / 5) (3 / 5) (1 / 2)])) =
       Running \<lparr>prev_x = 288, prev_y = 162, middle_grabbed = True, pinky_was_down = False,
                 ring_was_down = True, all_fingers_were_down = False\<rparr>
   \<and> \<not> held ButtonRight False
       (fst (capture_loop full_hd init_state (hand_frames [hand (1 / 2) (3 / 5) (3 / 5) (1 / 2)])))
   \<and> middle_grabbed \<lparr>prev_x = 288, prev_y = 162, middle_grabbed = True, pinky_was_down = False,
                 ring_was_down = True, all_fingers_were_down = False\<rparr>"
proof -
  let ?es = "hand_frames [hand (1 / 2) (3 / 5) (3 / 5) (1 / 2)]"
  have ev: "capture_loop full_hd init_state ?es =
      ([MoveTo 288 162, Press ButtonLeft, Press ButtonRight, Release ButtonRight,
        PutNowait [] [((0, 8), True), ((0, 12), True), ((0, 16), True), ((0, 20), False)]],
       Running \<lparr>prev_x = 288, prev_y = 162, middle_grabbed = True, pinky_was_down = False,
                 ring_was_down = True, all_fingers_were_down = False\<rparr>)"
    by (simp add: single_calm_frame well_formed_hand rock_and_roll_hand frame_effects_calm
        frame_state_calm downs_hand init_state_def smoothed_full_hd_init [unfolded init_state_def]
        smooth_def SMOOTH_ALPHA_def py_int_def grab_def click_def gestures_of_def)
  from right_button_never_stays_down [of full_hd init_state None ?es]
  have "\<not> held ButtonRight False (fst (capture_loop full_hd init_state ?es))"
    and "\<forall>s'. (snd (capture_loop full_hd init_state ?es) = Running s'
               \<or> snd (capture_loop full_hd init_state ?es) = Stopped s')
             \<and> held ButtonLeft False (fst (capture_loop full_hd init_state ?es))
          \<longrightarrow> middle_grabbed s'"
    by blast+
  then show ?thesis
    using ev by simp
qed

section \<open>The pointer stays on the screen\<close>

lemma py_int_bounds:
  assumes "0 \<le> r" and "r \<le> real_of_int n"
  shows "0 \<le> py_int r" and "py_int r \<le> n"
  using assms by (simp_all add: py_int_def floor_le_iff le_floor_iff)

lemma mapped_unit: "0 \<le> min (max x 0) (1::real)" "min (max x 0) (1::real) \<le> 1"
  by simp_all

lemma to_screen_on_screen:
  assumes "to_screen cfg p = Inr (cx, cy)"
  shows "on_screen cfg cx cy"
proof -
  let ?mx = "min (max ((lm_x p - 1 / 10) / (4 / 5)) 0) (1::real)"
  let ?my = "min (max ((lm_y p - 1 / 10) / (4 / 5)) 0) (1::real)"
  have cx: "cx = py_int (?mx * real (scr_w cfg))" and cy: "cy = py_int (?my * real (scr_h cfg))"
    using assms by (simp_all add: to_screen_eq)
  have x0: "0 \<le> ?mx * real (scr_w cfg)" and y0: "0 \<le> ?my * real (scr_h cfg)"
    by simp_all
  have x1: "?mx * real (scr_w cfg) \<le> real_of_int (int (scr_w cfg))"
    using mult_right_mono [of ?mx 1 "real (scr_w cfg)"] by simp
  have y1: "?my * real (scr_h cfg) \<le> real_of_int (int (scr_h cfg))"
    using mult_right_mono [of ?my 1 "real (scr_h cfg)"] by simp
  show ?thesis
    unfolding on_screen_def cx cy
    using py_int_bounds [OF x0 x1] py_int_bounds [OF y0 y1] by simp
qed

lemma smooth_between:
  assumes "0 \<le> p" and "p \<le> w" and "0 \<le> c" and "c \<le> w"
  shows "0 \<le> smooth p c" and "smooth p c \<le> w"
proof -
  let ?v = "real_of_int p + SMOOTH_ALPHA * real_of_int (c - p)"
  have v: "?v = (7 * real_of_int p + 3 * real_of_int c) / 10"
    by (simp add: SMOOTH_ALPHA_def field_simps)
  have v0: "0 \<le> ?v" using assms v by simp
  have v1: "?v \<le> real_of_int w"
  proof -
    have "real_of_int p \<le> real_of_int w" "real_of_int c \<le> real_of_int w"
      using assms by simp_all
    then show ?thesis using v by simp
  qed
  show "0 \<le> smooth p c" and "smooth p c \<le> w"
    unfolding smooth_def using py_int_bounds [OF v0 v1] by simp_all
qed

lemma smoothed_on_screen:
  assumes "on_screen cfg (prev_x s) (prev_y s)"
  shows "on_screen cfg (fst (smoothed cfg s lm)) (snd (smoothed cfg s lm))"
proof -
  obtain cx cy where c: "to_screen cfg (lm ! 8) = Inr (cx, cy)"
    by (simp add: to_screen_eq)
  have oc: "on_screen cfg cx cy" by (rule to_screen_on_screen [OF c])
  have sm: "smoothed cfg s lm = (smooth (prev_x s) cx, smooth (prev_y s) cy)"
    by (simp add: smoothed_def c)
  show ?thesis
    using assms oc
      smooth_between [of "prev_x s" "int (scr_w cfg)" cx]
      smooth_between [of "prev_y s" "int (scr_h cfg)" cy]
    by (simp add: sm on_screen_def)
qed

lemma MoveTo_not_in_grab: "MoveTo x y \<notin> set (fst (grab d g))"
  by (simp add: grab_def)

lemma MoveTo_not_in_click: "MoveTo x y \<notin> set (fst (click b d w))"
  by (simp add: click_def)

lemma frame_on_screen:
  assumes "on_screen cfg (prev_x s) (prev_y s)"
  shows "(MoveTo x y \<in> set (fst (process_frame cfg s res)) \<longrightarrow> on_screen cfg x y)
       \<and> (snd (process_frame cfg s res) = Next s' \<longrightarrow> on_screen cfg (prev_x s') (prev_y s'))"
proof (cases res)
  case None
  then show ?thesis using assms by (auto simp add: process_frame_None)
next
  case (Some lm)
  show ?thesis
  proof (cases "length lm < 21")
    case True
    then show ?thesis using Some by (simp add: process_frame_short)
  next
    case False
    then have l: "21 \<le> length lm" by simp
    show ?thesis
      using Some smoothed_on_screen [OF assms, of lm]
      by (auto simp add: process_frame_hand [OF l] MoveTo_not_in_grab MoveTo_not_in_click)
  qed
qed

lemma run_on_screen:
  assumes "on_screen cfg (prev_x s) (prev_y s)"
  shows "(MoveTo x y \<in> set (fst (capture_loop cfg s es)) \<longrightarrow> on_screen cfg x y)
       \<and> (snd (capture_loop cfg s es) = Running s' \<or> snd (capture_loop cfg s es) = Stopped s'
            \<longrightarrow> on_screen cfg (prev_x s') (prev_y s'))"
  using assms
proof (induction cfg s es rule: capture_loop.induct)
  case (1 cfg s)
  then show ?case by auto
next
  case (2 cfg s es)
  then show ?case by simp
next
  case (3 cfg s res key es)
  obtain effs out where pf: "process_frame cfg s res = (effs, out)"
    by (cases "process_frame cfg s res")
  have fr: "(MoveTo x y \<in> set effs \<longrightarrow> on_screen cfg x y)
       \<and> (\<forall>s1. out = Next s1 \<longrightarrow> on_screen cfg (prev_x s1) (prev_y s1))"
    using frame_on_screen [OF "3.prems", of x y res] pf by auto
  show ?case
  proof (cases out)
    case (Next s1)
    have o1: "on_screen cfg (prev_x s1) (prev_y s1)" using fr Next by simp
    show ?thesis
    proof (cases "quit_key key")
      case True
      then show ?thesis using pf Next fr o1 by auto
    next
      case False
      from "3.IH" [OF pf [symmetric] Next False o1]
      show ?thesis
        using pf Next False fr by (auto simp add: case_prod_beta)
    qed
  next
    case Exited
    then show ?thesis using pf fr by simp
  next
    case (Raised e)
    then show ?thesis using pf fr by simp
  qed
qed

text \<open>
  Claim C9. The mapper sends every real input into \<open>[0, 1]\<close>. Over every run of the loop
  from the initial state, whatever the events, each pointer position the loop sets lies in
  \<open>[0, scr_w] \<times> [0, scr_h]\<close>, and so does the smoother state \<open>(prev_x, prev_y)\<close> whenever
  the loop is still alive or has stopped on a key.
\<close>

theorem cursor_stays_on_screen:
  "(\<exists>r. map_with_margin v CAMERA_MARGIN = Inr r \<and> 0 \<le> r \<and> r \<le> 1)
   \<and> (\<forall>x y. MoveTo x y \<in> set (fst (capture_loop cfg init_state es)) \<longrightarrow> on_screen cfg x y)
   \<and> (\<forall>s. snd (capture_loop cfg init_state es) = Running s
            \<or> snd (capture_loop cfg init_state es) = Stopped s
          \<longrightarrow> on_screen cfg (prev_x s) (prev_y s))"
proof -
  have i: "on_screen cfg (prev_x init_state) (prev_y init_state)"
    by (simp add: on_screen_def init_state_def)
  show ?thesis
    using run_on_screen [OF i] by (simp add: map_with_margin_CAMERA)
qed

theorem cursor_stays_on_screen_witness:
  "MoveTo 288 162 \<in> set (fst (capture_loop full_hd init_state
       (hand_frames [hand (1 / 2) (1 / 2) (1 / 2) (1 / 2)])))
   \<and> on_screen full_hd 288 162"
proof -
  let ?es = "hand_frames [hand (1 / 2) (1 / 2) (1 / 2) (1 / 2)]"
  have m: "MoveTo 288 162 \<in> set (fst (capture_loop full_hd init_state ?es))"
    by (simp add: single_calm_frame well_formed_hand rock_and_roll_hand frame_effects_calm
        smoothed_full_hd_init smooth_def SMOOTH_ALPHA_def py_int_def)
  from cursor_stays_on_screen [of "0" full_hd ?es]
  have "\<forall>x y. MoveTo x y \<in> set (fst (capture_loop full_hd init_state ?es))
          \<longrightarrow> on_screen full_hd x y"
    by blast
  then show ?thesis using m by blast
qed

section \<open>The cursor smoother\<close>












section \<open>Facts about double-precision rounding\<close>

lemma pw_pos: "0 < (2::real) powi k"
  by simp

lemma pw_mono: "k \<le> l \<Longrightarrow> (2::real) powi k \<le> 2 powi l"
  by (rule power_int_increasing) simp_all

lemma pw_strict: "k < l \<Longrightarrow> (2::real) powi k < 2 powi l"
  by (rule power_int_strict_increasing) simp_all

lemma pw_add: "(2::real) powi (k + l) = 2 powi k * 2 powi l"
  by (simp add: power_int_add)

lemma pw_Suc: "(2::real) powi (k + 1) = 2 * 2 powi k"
  by (simp add: power_int_add)

lemma f64_exp_from_spec:
  "- 1022 \<le> f64_exp_from n a \<and> f64_exp_from n a \<le> int n - 1022
   \<and> (f64_exp_from n a = - 1022 \<or> 2 powi (f64_exp_from n a) \<le> a)
   \<and> (a < 2 powi (int n - 1021) \<longrightarrow> a < 2 powi (f64_exp_from n a + 1))"
proof (induction n)
  case 0
  then show ?case by simp
next
  case (Suc n)
  show ?case
  proof (cases "2 powi (int (Suc n) - 1022) \<le> a")
    case True
    then show ?thesis by (simp add: algebra_simps)
  next
    case False
    then have lt: "a < 2 powi (int n - 1021)" by (simp add: algebra_simps)
    have e: "f64_exp_from (Suc n) a = f64_exp_from n a" using False by simp
    show ?thesis
      unfolding e using Suc lt by auto
  qed
qed

lemma f64_exp_range: "- 1022 \<le> f64_exp x" "f64_exp x \<le> 1023"
  using f64_exp_from_spec [of 2045 "\<bar>x\<bar>"] by (simp_all add: f64_exp_def)

lemma f64_exp_lower: "f64_exp x = - 1022 \<or> 2 powi (f64_exp x) \<le> \<bar>x\<bar>"
  using f64_exp_from_spec [of 2045 "\<bar>x\<bar>"] by (simp add: f64_exp_def)

lemma f64_exp_upper: "\<bar>x\<bar> < 2 powi 1024 \<Longrightarrow> \<bar>x\<bar> < 2 powi (f64_exp x + 1)"
  using f64_exp_from_spec [of 2045 "\<bar>x\<bar>"] by (simp add: f64_exp_def)

lemma f64_exp_eqI:
  assumes "- 1022 \<le> k" and "k \<le> 1023" and "2 powi k \<le> \<bar>x\<bar>" and "\<bar>x\<bar> < 2 powi (k + 1)"
  shows "f64_exp x = k"
proof (rule ccontr)
  assume ne: "f64_exp x \<noteq> k"
  have big: "\<bar>x\<bar> < 2 powi 1024"
    using assms(4) pw_mono [of "k + 1" 1024] assms(2) by simp
  show False
  proof (cases "f64_exp x < k")
    case True
    then have "2 powi (f64_exp x + 1) \<le> (2::real) powi k" by (intro pw_mono) simp
    then show False using f64_exp_upper [OF big] assms(3) by linarith
  next
    case False
    then have gt: "k < f64_exp x" using ne by simp
    then have "f64_exp x \<noteq> - 1022" using assms(1) by simp
    then have lo: "2 powi (f64_exp x) \<le> \<bar>x\<bar>" using f64_exp_lower [of x] by simp
    have "2 powi (k + 1) \<le> (2::real) powi (f64_exp x)" using gt by (intro pw_mono) simp
    then show False using lo assms(4) by linarith
  qed
qed

lemma f64_exp_subnormal:
  assumes "\<bar>x\<bar> < 2 powi (- 1022)"
  shows "f64_exp x = - 1022"
proof (rule ccontr)
  assume ne: "f64_exp x \<noteq> - 1022"
  then have lo: "2 powi (f64_exp x) \<le> \<bar>x\<bar>" using f64_exp_lower [of x] by simp
  have "(2::real) powi (- 1022) \<le> 2 powi (f64_exp x)"
    using f64_exp_range(1) [of x] by (intro pw_mono)
  then show False using lo assms by linarith
qed

lemma f64_exp_mono:
  assumes "\<bar>x\<bar> \<le> \<bar>y\<bar>" and "\<bar>y\<bar> < 2 powi 1024"
  shows "f64_exp x \<le> f64_exp y"
proof (rule ccontr)
  assume "\<not> f64_exp x \<le> f64_exp y"
  then have gt: "f64_exp y < f64_exp x" by simp
  then have "f64_exp x \<noteq> - 1022" using f64_exp_range(1) [of y] by simp
  then have lo: "2 powi (f64_exp x) \<le> \<bar>x\<bar>" using f64_exp_lower [of x] by simp
  have "2 powi (f64_exp y + 1) \<le> (2::real) powi (f64_exp x)" using gt by (intro pw_mono) simp
  then show False using lo assms f64_exp_upper [OF assms(2)] by linarith
qed

lemma rne_of_int: "rne (real_of_int k) = k"
  by (simp add: rne_def)

lemma rne_bounds: "\<lfloor>y\<rfloor> \<le> rne y" "rne y \<le> \<lfloor>y\<rfloor> + 1"
  by (simp_all add: rne_def Let_def)

lemma rne_mono:
  assumes "y \<le> z"
  shows "rne y \<le> rne z"
proof (cases "\<lfloor>y\<rfloor> = \<lfloor>z\<rfloor>")
  case True
  then show ?thesis using assms by (auto simp add: rne_def Let_def)
next
  case False
  then have "\<lfloor>y\<rfloor> < \<lfloor>z\<rfloor>" using floor_mono [OF assms] by simp
  then show ?thesis using rne_bounds(2) [of y] rne_bounds(1) [of z] by linarith
qed

lemma f64_round_0: "f64_round 0 = 0"
  by (simp add: f64_round_def rne_def)

lemma f64_round_grid:
  assumes "x = real_of_int k * 2 powi (f64_exp x - 52)"
  shows "f64_round x = x"
proof -
  have "x / 2 powi (f64_exp x - 52) = real_of_int k"
    using assms pw_pos [of "f64_exp x - 52"] by (simp add: field_simps)
  then have "f64_round x = 2 powi (f64_exp x - 52) * real_of_int k"
    by (simp add: f64_round_def rne_of_int)
  also have "\<dots> = x" using assms by (simp add: mult.commute)
  finally show ?thesis .
qed

lemma f64_round_pow2:
  assumes "- 1022 \<le> k" and "k \<le> 1023"
  shows "f64_round (2 powi k) = 2 powi k"
proof -
  have e: "f64_exp (2 powi k) = k"
    using assms by (intro f64_exp_eqI) (simp_all add: pw_strict)
  have "k = 52 + (k - 52)" by simp
  then have "(2::real) powi k = 2 powi (52 + (k - 52))" by (rule arg_cong)
  also have "\<dots> = 2 powi 52 * 2 powi (k - 52)" by (rule pw_add)
  also have "\<dots> = real_of_int (2 ^ 52) * 2 powi (k - 52)" by simp
  finally have g: "(2::real) powi k = real_of_int (2 ^ 52) * 2 powi (k - 52)" .
  show ?thesis
    by (rule f64_round_grid [where k = "2 ^ 52"], subst e, rule g)
qed

lemma f64_round_1: "f64_round 1 = 1"
  using f64_round_pow2 [of 0] by simp

lemma f64_round_nonneg:
  assumes "0 \<le> x"
  shows "0 \<le> f64_round x"
proof -
  have "0 \<le> x / 2 powi (f64_exp x - 52)" using assms by simp
  then have "rne 0 \<le> rne (x / 2 powi (f64_exp x - 52))" by (rule rne_mono)
  then have "0 \<le> rne (x / 2 powi (f64_exp x - 52))" using rne_of_int [of 0] by simp
  then show ?thesis by (simp add: f64_round_def)
qed

lemma f64_round_nonpos:
  assumes "x \<le> 0"
  shows "f64_round x \<le> 0"
proof -
  have "x / 2 powi (f64_exp x - 52) \<le> 0" using assms by (simp add: divide_nonpos_pos)
  then have "rne (x / 2 powi (f64_exp x - 52)) \<le> rne 0" by (rule rne_mono)
  then have "rne (x / 2 powi (f64_exp x - 52)) \<le> 0" using rne_of_int [of 0] by simp
  then show ?thesis by (simp add: f64_round_def mult_nonneg_nonpos)
qed

text \<open>Within its binade a rounded value stays between the two powers of two.\<close>

lemma f64_round_ge_pow:
  assumes "0 \<le> x" and "2 powi (f64_exp x) \<le> x"
  shows "2 powi (f64_exp x) \<le> f64_round x"
proof -
  let ?e = "f64_exp x"
  let ?u = "(2::real) powi (?e - 52)"
  have u: "0 < ?u" by simp
  have p: "(2::real) powi ?e = 2 ^ 52 * ?u"
    using pw_add [of 52 "?e - 52"] by simp
  have "real_of_int (2 ^ 52) \<le> x / ?u"
    using assms(2) u p by (simp add: field_simps)
  then have "rne (real_of_int (2 ^ 52)) \<le> rne (x / ?u)" by (rule rne_mono)
  then have "(2::int) ^ 52 \<le> rne (x / ?u)" by (simp only: rne_of_int)
  then have "real_of_int (2 ^ 52) \<le> real_of_int (rne (x / ?u))" by (simp only: of_int_le_iff)
  then have "2 ^ 52 * ?u \<le> ?u * real_of_int (rne (x / ?u))"
    using u by (simp add: mult.commute)
  then show ?thesis by (simp add: f64_round_def p)
qed

lemma f64_round_le_pow:
  assumes "0 \<le> x" and "x < 2 powi (f64_exp x + 1)"
  shows "f64_round x \<le> 2 powi (f64_exp x + 1)"
proof -
  let ?e = "f64_exp x"
  let ?u = "(2::real) powi (?e - 52)"
  have u: "0 < ?u" by simp
  have p: "(2::real) powi (?e + 1) = 2 ^ 53 * ?u"
  proof -
    have "?e + 1 = 53 + (?e - 52)" by simp
    then have "(2::real) powi (?e + 1) = 2 powi (53 + (?e - 52))" by (rule arg_cong)
    also have "\<dots> = 2 powi 53 * ?u" by (rule pw_add)
    finally show ?thesis by simp
  qed
  have "x / ?u \<le> real_of_int (2 ^ 53)"
    using assms(2) u p by (simp add: field_simps)
  then have "rne (x / ?u) \<le> rne (real_of_int (2 ^ 53))" by (rule rne_mono)
  then have "rne (x / ?u) \<le> (2::int) ^ 53" by (simp only: rne_of_int)
  then have "real_of_int (rne (x / ?u)) \<le> real_of_int (2 ^ 53)" by (simp only: of_int_le_iff)
  then have "?u * real_of_int (rne (x / ?u)) \<le> 2 ^ 53 * ?u"
    using u by (simp add: mult.commute)
  then show ?thesis by (simp add: f64_round_def p)
qed

lemma f64_round_mono:
  assumes "0 \<le> x" and "x \<le> y" and "y < 2 powi 1024"
  shows "f64_round x \<le> f64_round y"
proof -
  have ax: "\<bar>x\<bar> = x" and ay: "\<bar>y\<bar> = y" using assms by simp_all
  have le: "f64_exp x \<le> f64_exp y"
    using f64_exp_mono [of x y] assms ax ay by simp
  show ?thesis
  proof (cases "f64_exp x = f64_exp y")
    case True
    let ?u = "(2::real) powi (f64_exp y - 52)"
    have "x / ?u \<le> y / ?u" using assms(2) by (simp add: divide_right_mono)
    then have "rne (x / ?u) \<le> rne (y / ?u)" by (rule rne_mono)
    then have "?u * real_of_int (rne (x / ?u)) \<le> ?u * real_of_int (rne (y / ?u))"
      by (simp add: mult_left_mono)
    then show ?thesis by (simp add: f64_round_def True)
  next
    case False
    then have lt: "f64_exp x < f64_exp y" using le by simp
    then have "f64_exp y \<noteq> - 1022" using f64_exp_range(1) [of x] by simp
    then have lo: "2 powi (f64_exp y) \<le> y" using f64_exp_lower [of y] ay by simp
    have y0: "0 \<le> y" using assms by simp
    have xb: "x < 2 powi 1024" using assms by simp
    have up: "x < 2 powi (f64_exp x + 1)" using f64_exp_upper [of x] ax xb by simp
    have "f64_round x \<le> 2 powi (f64_exp x + 1)" by (rule f64_round_le_pow [OF assms(1) up])
    also have "\<dots> \<le> 2 powi (f64_exp y)" using lt by (intro pw_mono) simp
    also have "\<dots> \<le> f64_round y" by (rule f64_round_ge_pow [OF y0 lo])
    finally show ?thesis .
  qed
qed

text \<open>Evaluating the rounding once the binade of the argument is known.\<close>

lemma f64_round_at:
  assumes "- 1022 \<le> k" and "k \<le> 1023" and "2 powi k \<le> \<bar>x\<bar>" and "\<bar>x\<bar> < 2 powi (k + 1)"
  shows "f64_round x = 2 powi (k - 52) * real_of_int (rne (x / 2 powi (k - 52)))"
  by (simp add: f64_round_def f64_exp_eqI [OF assms])

lemma pw_lessD:
  assumes "(2::real) powi k < 2 powi l"
  shows "k < l"
proof (rule ccontr)
  assume "\<not> k < l"
  then have "(2::real) powi l \<le> 2 powi k" by (intro pw_mono) simp
  then show False using assms by simp
qed

lemma f64_double:
  assumes d: "is_f64 m" and "0 \<le> m" and "m < 1 / 2"
  shows "f64_round (2 * m) = 2 * m"
proof -
  define e where "e = f64_exp m"
  define u :: real where "u = 2 powi (e - 52)"
  define K where "K = rne (m / u)"
  have m: "m = u * real_of_int K"
    using d by (simp add: is_f64_def f64_round_def K_def u_def e_def)
  have am: "\<bar>m\<bar> = m" using assms by simp
  have big: "\<bar>m\<bar> < 2 powi 1024" using d by (simp add: is_f64_def)
  have up: "m < 2 powi (e + 1)" using f64_exp_upper [OF big] am by (simp add: e_def)
  show ?thesis
  proof (cases "2 powi e \<le> m")
    case True
    have "(2::real) powi e < 2 powi (- 1)" using True assms(3) by simp
    then have e1: "e < - 1" by (rule pw_lessD)
    have ex: "f64_exp (2 * m) = e + 1"
    proof (rule f64_exp_eqI)
      show "- 1022 \<le> e + 1" using f64_exp_range(1) [of m] by (simp add: e_def)
      show "e + 1 \<le> 1023" using e1 by simp
      show "2 powi (e + 1) \<le> \<bar>2 * m\<bar>" using True assms(2) by (simp add: pw_Suc)
      show "\<bar>2 * m\<bar> < 2 powi (e + 1 + 1)"
        using up assms(2) pw_Suc [of "e + 1"] by simp
    qed
    have "e + 1 - 52 = (e - 52) + 1" by simp
    then have "(2::real) powi (e + 1 - 52) = 2 powi ((e - 52) + 1)" by (rule arg_cong)
    also have "\<dots> = 2 * u" unfolding u_def by (rule pw_Suc)
    finally have u2: "(2::real) powi (e + 1 - 52) = 2 * u" .
    have "2 * m = real_of_int K * 2 powi (f64_exp (2 * m) - 52)"
      unfolding ex u2 by (simp add: m)
    then show ?thesis by (rule f64_round_grid)
  next
    case False
    then have lt: "m < 2 powi e" by simp
    then have e: "e = - 1022" using f64_exp_lower [of m] am by (simp add: e_def)
    have ex: "f64_exp (2 * m) = - 1022"
    proof (cases "2 * m < 2 powi (- 1022)")
      case True
      then show ?thesis using assms(2) by (intro f64_exp_subnormal) simp
    next
      case False
      show ?thesis
      proof (rule f64_exp_eqI)
        show "- 1022 \<le> (- 1022 :: int)" by simp
        show "(- 1022 :: int) \<le> 1023" by simp
        show "2 powi (- 1022) \<le> \<bar>2 * m\<bar>" using False assms(2) by simp
        have "2 * m < 2 * 2 powi (- 1022)" using lt e by simp
        also have "\<dots> = 2 powi (- 1022 + 1)" by (rule pw_Suc [symmetric])
        finally show "\<bar>2 * m\<bar> < 2 powi (- 1022 + 1)" using assms(2) by simp
      qed
    qed
    have ue: "(2::real) powi (- 1022 - 52) = u" by (simp add: u_def e)
    have "2 * m = real_of_int (2 * K) * 2 powi (f64_exp (2 * m) - 52)"
      unfolding ex ue by (simp add: m)
    then show ?thesis by (rule f64_round_grid)
  qed
qed

lemma f64_margin_gap:
  assumes d: "is_f64 m" and "0 \<le> m" and "m < 1 / 2"
  shows "2 powi (- 53) \<le> 1 - 2 * m"
proof (cases "m < 1 / 4")
  case True
  have "(2::real) powi (- 53) \<le> 1 / 2" by simp
  then show ?thesis using True by linarith
next
  case False
  have am: "\<bar>m\<bar> = m" using assms by simp
  have ex: "f64_exp m = - 2"
    using False assms(3) am by (intro f64_exp_eqI) simp_all
  define K where "K = rne (m / 2 powi (- 54))"
  have m: "m = 2 powi (- 54) * real_of_int K"
    using d by (simp add: is_f64_def f64_round_def ex K_def)
  have "real_of_int K < 2 ^ 53" using assms(3) m by simp
  then have "K < 2 ^ 53" by (simp only: of_int_less_numeral_power_cancel_iff)
  then have "K \<le> 2 ^ 53 - 1" by simp
  then have "real_of_int K \<le> real_of_int (2 ^ 53 - 1)" by (simp only: of_int_le_iff)
  then have "real_of_int K \<le> 2 ^ 53 - 1" by simp
  then show ?thesis using m by simp
qed

lemma f64_divisor:
  assumes d: "is_f64 m" and "0 \<le> m" and "m < 1 / 2"
  shows "f64_sub 1 (f64_mul 2 m) = f64_round (1 - 2 * m)"
    and "2 powi (- 53) \<le> f64_round (1 - 2 * m)"
    and "f64_round (1 - 2 * m) \<le> 1"
proof -
  show "f64_sub 1 (f64_mul 2 m) = f64_round (1 - 2 * m)"
    by (simp add: f64_sub_def f64_mul_def f64_double [OF assms])
  have g: "2 powi (- 53) \<le> 1 - 2 * m" by (rule f64_margin_gap [OF assms])
  have "f64_round (2 powi (- 53)) \<le> f64_round (1 - 2 * m)"
    using g assms(2) by (intro f64_round_mono) simp_all
  then show "2 powi (- 53) \<le> f64_round (1 - 2 * m)"
    using f64_round_pow2 [of "- 53"] by simp
  have "f64_round (1 - 2 * m) \<le> f64_round 1"
    using g assms(2) by (intro f64_round_mono) simp_all
  then show "f64_round (1 - 2 * m) \<le> 1" by (simp add: f64_round_1)
qed

lemma CAMERA_MARGIN_f64_value: "CAMERA_MARGIN_f64 = 3602879701896397 / 36028797018963968"
  unfolding CAMERA_MARGIN_f64_def
  by (subst f64_round_at [of "- 4"]) (simp_all add: rne_def)

lemma camera_divisor:
  "f64_sub 1 (f64_mul 2 CAMERA_MARGIN_f64) = 3602879701896397 / 4503599627370496"
proof -
  have a: "f64_round (2 * (3602879701896397 / 36028797018963968)) =
             3602879701896397 / 18014398509481984"
    by (subst f64_round_at [of "- 3"]) (simp_all add: rne_def)
  have b: "f64_round (1 - 3602879701896397 / 18014398509481984) =
             3602879701896397 / 4503599627370496"
    by (subst f64_round_at [of "- 1"]) (simp_all add: rne_def)
  show ?thesis
    unfolding f64_sub_def f64_mul_def CAMERA_MARGIN_f64_value a b ..
qed

lemma map_quarter:
  "map_with_margin_f64 (1 / 4) CAMERA_MARGIN_f64 = Inr (6755399441055743 / 36028797018963968)"
proof -
  have n: "f64_round (1 / 4 - 3602879701896397 / 36028797018963968) =
             5404319552844595 / 36028797018963968"
    by (subst f64_round_at [of "- 3"]) (simp_all add: rne_def)
  have q: "f64_round (5404319552844595 / 36028797018963968
                        / (3602879701896397 / 4503599627370496)) =
             6755399441055743 / 36028797018963968"
    by (subst f64_round_at [of "- 3"]) (simp_all add: rne_def)
  have "f64_div (f64_sub (1 / 4) CAMERA_MARGIN_f64) (3602879701896397 / 4503599627370496) =
          6755399441055743 / 36028797018963968"
    unfolding f64_div_def f64_sub_def CAMERA_MARGIN_f64_value n q ..
  then show ?thesis
    by (simp add: map_with_margin_f64_def camera_divisor)
qed

lemma map_half:
  "map_with_margin_f64 (1 / 2) CAMERA_MARGIN_f64 = Inr (1 / 2)"
proof -
  have n: "f64_round (1 / 2 - 3602879701896397 / 36028797018963968) =
             3602879701896397 / 9007199254740992"
    by (subst f64_round_at [of "- 2"]) (simp_all add: rne_def)
  have q: "f64_round (3602879701896397 / 9007199254740992
                        / (3602879701896397 / 4503599627370496)) = 1 / 2"
    by (subst f64_round_at [of "- 1"]) (simp_all add: rne_def)
  have "f64_div (f64_sub (1 / 2) CAMERA_MARGIN_f64) (3602879701896397 / 4503599627370496) =
          1 / 2"
    unfolding f64_div_def f64_sub_def CAMERA_MARGIN_f64_value n q ..
  then show ?thesis
    by (simp add: map_with_margin_f64_def camera_divisor)
qed

lemma pixel_quarter:
  "to_screen_f64 full_hd \<lparr>lm_x = 1 / 4, lm_y = 1 / 2\<rparr> = Inr (359, 540)"
proof -
  have x: "f64_round (101330991615836145 / 281474976710656) =
             6333186975989759 / 17592186044416"
    by (subst f64_round_at [of 8]) (simp_all add: rne_def)
  have y: "f64_round 540 = 540"
    by (subst f64_round_at [of 9]) (simp_all add: rne_def)
  show ?thesis
    by (simp add: to_screen_f64_def map_quarter map_half full_hd_def f64_mul_def x y py_int_def)
qed

lemma three_tenths: "f64_round (3 / 10) = 5404319552844595 / 18014398509481984"
  by (subst f64_round_at [of "- 2"]) (simp_all add: rne_def)

lemma one_minus_three_tenths:
  "f64_sub 1 (5404319552844595 / 18014398509481984) = 3152519739159347 / 4503599627370496"
  unfolding f64_sub_def
  by (subst f64_round_at [of "- 1"]) (simp_all add: rne_def)

lemma map_at_three_tenths:
  "map_with_margin_f64 (3152519739159347 / 4503599627370496)
     (5404319552844595 / 18014398509481984) = Inr (9007199254740991 / 9007199254740992)"
proof -
  have a: "f64_round (2 * (5404319552844595 / 18014398509481984)) =
             5404319552844595 / 9007199254740992"
    by (subst f64_round_at [of "- 1"]) (simp_all add: rne_def)
  have b: "f64_round (1 - 5404319552844595 / 9007199254740992) =
             3602879701896397 / 9007199254740992"
    by (subst f64_round_at [of "- 2"]) (simp_all add: rne_def)
  have n: "f64_round (3152519739159347 / 4503599627370496
                        - 5404319552844595 / 18014398509481984) =
             7205759403792793 / 18014398509481984"
    by (subst f64_round_at [of "- 2"]) (simp_all add: rne_def)
  have q: "f64_round (7205759403792793 / 18014398509481984
                        / (3602879701896397 / 9007199254740992)) =
             9007199254740991 / 9007199254740992"
    by (subst f64_round_at [of "- 1"]) (simp_all add: rne_def)
  have d: "f64_sub 1 (f64_mul 2 (5404319552844595 / 18014398509481984)) =
             3602879701896397 / 9007199254740992"
    unfolding f64_sub_def f64_mul_def a b ..
  have "f64_div (f64_sub (3152519739159347 / 4503599627370496)
                   (5404319552844595 / 18014398509481984))
          (3602879701896397 / 9007199254740992) = 9007199254740991 / 9007199254740992"
    unfolding f64_div_def f64_sub_def n q ..
  then show ?thesis
    by (simp add: map_with_margin_f64_def d)
qed

lemma is_f64_CAMERA_MARGIN: "is_f64 CAMERA_MARGIN_f64"
proof -
  have "f64_round (3602879701896397 / 36028797018963968) = 3602879701896397 / 36028797018963968"
    by (subst f64_round_at [of "- 4"]) (simp_all add: rne_def)
  then show ?thesis
    by (simp add: is_f64_def CAMERA_MARGIN_f64_value)
qed

lemma is_f64_three_tenths: "is_f64 (5404319552844595 / 18014398509481984)"
proof -
  have "f64_round (5404319552844595 / 18014398509481984) = 5404319552844595 / 18014398509481984"
    by (subst f64_round_at [of "- 2"]) (simp_all add: rne_def)
  then show ?thesis
    by (simp add: is_f64_def)
qed

lemma map_with_margin_f64_eq:
  assumes "is_f64 m" and "0 \<le> m" and "m < 1 / 2"
  shows "map_with_margin_f64 v m =
           Inr (min (max (f64_round (f64_round (v - m) / f64_round (1 - 2 * m))) 0) 1)"
proof -
  have "0 < (2::real) powi (- 53)" by simp
  then have ne: "f64_round (1 - 2 * m) \<noteq> 0"
    using f64_divisor(2) [OF assms] by linarith
  show ?thesis
    unfolding map_with_margin_f64_def f64_divisor(1) [OF assms]
    using ne by (simp add: f64_div_def f64_sub_def)
qed

lemma map_with_margin_f64_low:
  assumes "is_f64 m" and "0 \<le> m" and "m < 1 / 2" and "v \<le> m"
  shows "map_with_margin_f64 v m = Inr 0"
proof -
  have d: "0 < f64_round (1 - 2 * m)"
    using f64_divisor(2) [OF assms(1-3)] pw_pos [of "- 53"] by linarith
  have "f64_round (v - m) \<le> 0" using assms(4) by (intro f64_round_nonpos) simp
  then have "f64_round (v - m) / f64_round (1 - 2 * m) \<le> 0"
    using d by (simp add: divide_nonpos_pos)
  then have "f64_round (f64_round (v - m) / f64_round (1 - 2 * m)) \<le> 0"
    by (rule f64_round_nonpos)
  then show ?thesis
    by (simp add: map_with_margin_f64_eq [OF assms(1-3)])
qed

lemma map_with_margin_f64_high:
  assumes "is_f64 m" and "0 \<le> m" and "m < 1 / 2" and "1 - m \<le> v" and "v \<le> 1"
  shows "map_with_margin_f64 v m = Inr 1"
proof -
  let ?d = "f64_round (1 - 2 * m)"
  let ?n = "f64_round (v - m)"
  have g: "2 powi (- 53) \<le> 1 - 2 * m" by (rule f64_margin_gap [OF assms(1-3)])
  have dlo: "2 powi (- 53) \<le> ?d" by (rule f64_divisor(2) [OF assms(1-3)])
  have d: "0 < ?d" using dlo pw_pos [of "- 53"] by linarith
  have p: "0 \<le> 1 - 2 * m" using assms(3) by simp
  have nd: "?d \<le> ?n"
    using assms(4,5) p by (intro f64_round_mono) simp_all
  have n1: "?n \<le> 1"
  proof -
    have "?n \<le> f64_round 1"
      using assms(2,4,5) p by (intro f64_round_mono) simp_all
    then show ?thesis by (simp add: f64_round_1)
  qed
  have q1: "1 \<le> ?n / ?d" using nd d by simp
  have "?n / ?d \<le> 1 / 2 powi (- 53)"
    using n1 dlo d by (intro frac_le) simp_all
  then have qb: "?n / ?d < 2 powi 1024" by (simp add: power_int_minus field_simps)
  have "f64_round 1 \<le> f64_round (?n / ?d)"
    using q1 qb by (intro f64_round_mono) simp_all
  then have "1 \<le> f64_round (?n / ?d)" by (simp add: f64_round_1)
  then show ?thesis
    by (simp add: map_with_margin_f64_eq [OF assms(1-3)])
qed

lemma map_with_margin_f64_exact:
  assumes "is_f64 m" and "0 \<le> m" and "m < 1 / 2"
  shows "map_with_margin_f64 (1 - m) m = Inr 1"
  using assms by (intro map_with_margin_f64_high) simp_all

lemma pixel_is_integer_part:
  assumes "map_with_margin_f64 c CAMERA_MARGIN_f64 = Inr mapped"
  shows "real_of_int (py_int (f64_mul mapped (real w))) \<le> f64_mul mapped (real w)"
    and "f64_mul mapped (real w) < real_of_int (py_int (f64_mul mapped (real w))) + 1"
proof -
  have "0 \<le> mapped"
    using assms by (auto simp add: map_with_margin_f64_def Let_def split: if_splits)
  then have "0 \<le> mapped * real w" by simp
  then have "0 \<le> f64_mul mapped (real w)"
    unfolding f64_mul_def by (rule f64_round_nonneg)
  then show "real_of_int (py_int (f64_mul mapped (real w))) \<le> f64_mul mapped (real w)"
    and "f64_mul mapped (real w) < real_of_int (py_int (f64_mul mapped (real w))) + 1"
    by (simp_all add: py_int_def)
qed

section \<open>The coordinate mapper\<close>

text \<open>
  Claim C4 has \<open>v = 1 - m\<close> map to 1 and the result equal to
  \<open>clamp ((v - m) / (1 - 2 m)) 0 1\<close>. In the arithmetic of the code, with the margin
  \<^verbatim>\<open>0.3\<close> (the double 5404319552844595 / 2^54) and \<^verbatim>\<open>v = 1 - 0.3\<close> (the double
  3152519739159347 / 2^52, which is 0.7), the mapper returns 9007199254740991 / 2^53, printed
  0.9999999999999999: it is not 1, and it is not the exact quotient
  7205759403792793 / 7205759403792794 either.
\<close>

theorem mapper_falls_short_of_one:
  "f64_round (3 / 10) = 5404319552844595 / 18014398509481984
   \<and> f64_sub 1 (f64_round (3 / 10)) = 3152519739159347 / 4503599627370496
   \<and> map_with_margin_f64 (f64_sub 1 (f64_round (3 / 10))) (f64_round (3 / 10)) =
       Inr (9007199254740991 / 9007199254740992)
   \<and> min (max ((3152519739159347 / 4503599627370496 - 5404319552844595 / 18014398509481984)
                 / (1 - 2 * (5404319552844595 / 18014398509481984))) 0) (1::real)
       = 7205759403792793 / 7205759403792794"
  by (simp add: three_tenths one_minus_three_tenths map_at_three_tenths)

text \<open>
  Claim C4, amended. For every margin \<open>m\<close> that is a double in \<open>[0, 1/2)\<close> and every \<open>v\<close> in
  \<open>[0, 1]\<close> the mapper raises nothing and returns the clamp to \<open>[0, 1]\<close> of the quotient as
  the doubles compute it, \<open>v - m\<close>, \<open>1 - 2 m\<close> and their quotient each rounded to the
  nearest double. The result lies in \<open>[0, 1]\<close>; \<open>v = m\<close> maps to 0; an input that equals
  \<open>1 - m\<close> exactly maps to 1 (the double nearest to \<open>1 - m\<close> can fall just short, as
  above); values below \<open>m\<close> clamp to 0 and values above \<open>1 - m\<close> to 1. The projection to
  the screen maps x and y separately with the margin \<^verbatim>\<open>0.10\<close>, multiplies by the screen
  width and height in double precision (a screen size below \<open>2 ^ 53\<close> converts to a double
  without rounding), and each pixel coordinate is the integer part of that product.
\<close>

theorem map_with_margin_f64_clamps:
  assumes "is_f64 m" and "0 \<le> m" and "m < 1 / 2" and "0 \<le> v" and "v \<le> 1"
    and "scr_w cfg < 2 ^ 53" and "scr_h cfg < 2 ^ 53"
  shows "map_with_margin_f64 v m =
           Inr (min (max (f64_round (f64_round (v - m) / f64_round (1 - 2 * m))) 0) 1)
       \<and> (\<exists>r. map_with_margin_f64 v m = Inr r \<and> 0 \<le> r \<and> r \<le> 1)
       \<and> map_with_margin_f64 m m = Inr 0
       \<and> map_with_margin_f64 (1 - m) m = Inr 1
       \<and> (v < m \<longrightarrow> map_with_margin_f64 v m = Inr 0)
       \<and> (1 - m < v \<longrightarrow> map_with_margin_f64 v m = Inr 1)
       \<and> (\<exists>mapped_x mapped_y px py.
             map_with_margin_f64 (lm_x p) CAMERA_MARGIN_f64 = Inr mapped_x
           \<and> map_with_margin_f64 (lm_y p) CAMERA_MARGIN_f64 = Inr mapped_y
           \<and> to_screen_f64 cfg p = Inr (px, py)
           \<and> real_of_int px \<le> f64_mul mapped_x (real (scr_w cfg))
           \<and> f64_mul mapped_x (real (scr_w cfg)) < real_of_int px + 1
           \<and> real_of_int py \<le> f64_mul mapped_y (real (scr_h cfg))
           \<and> f64_mul mapped_y (real (scr_h cfg)) < real_of_int py + 1)"
proof -
  note m = assms(1-3)
  have a: "map_with_margin_f64 v m =
           Inr (min (max (f64_round (f64_round (v - m) / f64_round (1 - 2 * m))) 0) 1)"
    by (rule map_with_margin_f64_eq [OF m])
  have b: "\<exists>r. map_with_margin_f64 v m = Inr r \<and> 0 \<le> r \<and> r \<le> 1"
    unfolding a by simp
  have c: "map_with_margin_f64 m m = Inr 0"
    by (rule map_with_margin_f64_low [OF m]) simp
  have d: "map_with_margin_f64 (1 - m) m = Inr 1"
    by (rule map_with_margin_f64_exact [OF m])
  have e: "v < m \<longrightarrow> map_with_margin_f64 v m = Inr 0"
    using map_with_margin_f64_low [OF m, of v] by simp
  have f: "1 - m < v \<longrightarrow> map_with_margin_f64 v m = Inr 1"
    using map_with_margin_f64_high [OF m, of v] assms(5) by simp
  have cm: "0 \<le> CAMERA_MARGIN_f64" "CAMERA_MARGIN_f64 < 1 / 2"
    by (simp_all add: CAMERA_MARGIN_f64_value)
  obtain mx where mx: "map_with_margin_f64 (lm_x p) CAMERA_MARGIN_f64 = Inr mx"
    using map_with_margin_f64_eq [OF is_f64_CAMERA_MARGIN cm] by blast
  obtain my where my: "map_with_margin_f64 (lm_y p) CAMERA_MARGIN_f64 = Inr my"
    using map_with_margin_f64_eq [OF is_f64_CAMERA_MARGIN cm] by blast
  have ts: "to_screen_f64 cfg p =
              Inr (py_int (f64_mul mx (real (scr_w cfg))), py_int (f64_mul my (real (scr_h cfg))))"
    by (simp add: to_screen_f64_def mx my)
  have g: "\<exists>mapped_x mapped_y px py.
             map_with_margin_f64 (lm_x p) CAMERA_MARGIN_f64 = Inr mapped_x
           \<and> map_with_margin_f64 (lm_y p) CAMERA_MARGIN_f64 = Inr mapped_y
           \<and> to_screen_f64 cfg p = Inr (px, py)
           \<and> real_of_int px \<le> f64_mul mapped_x (real (scr_w cfg))
           \<and> f64_mul mapped_x (real (scr_w cfg)) < real_of_int px + 1
           \<and> real_of_int py \<le> f64_mul mapped_y (real (scr_h cfg))
           \<and> f64_mul mapped_y (real (scr_h cfg)) < real_of_int py + 1"
    using mx my ts pixel_is_integer_part [OF mx, of "scr_w cfg"]
      pixel_is_integer_part [OF my, of "scr_h cfg"]
    by blast
  show ?thesis
    using a b c d e f g by blast
qed

theorem map_with_margin_f64_clamps_witness:
  "is_f64 CAMERA_MARGIN_f64 \<and> 0 \<le> CAMERA_MARGIN_f64 \<and> CAMERA_MARGIN_f64 < 1 / 2
   \<and> (0::real) \<le> 1 / 4 \<and> (1 / 4 :: real) \<le> 1
   \<and> scr_w full_hd < 2 ^ 53 \<and> scr_h full_hd < 2 ^ 53
   \<and> map_with_margin_f64 (1 / 4) CAMERA_MARGIN_f64 = Inr (6755399441055743 / 36028797018963968)
   \<and> map_with_margin_f64 CAMERA_MARGIN_f64 CAMERA_MARGIN_f64 = Inr 0
   \<and> map_with_margin_f64 (1 - CAMERA_MARGIN_f64) CAMERA_MARGIN_f64 = Inr 1
   \<and> to_screen_f64 full_hd \<lparr>lm_x = 1 / 4, lm_y = 1 / 2\<rparr> = Inr (359, 540)"
proof -
  have h: "is_f64 CAMERA_MARGIN_f64" "0 \<le> CAMERA_MARGIN_f64" "CAMERA_MARGIN_f64 < 1 / 2"
    "(0::real) \<le> 1 / 4" "(1 / 4 :: real) \<le> 1"
    "scr_w full_hd < 2 ^ 53" "scr_h full_hd < 2 ^ 53"
    by (simp_all add: is_f64_CAMERA_MARGIN full_hd_def) (simp_all add: CAMERA_MARGIN_f64_value)
  from map_with_margin_f64_clamps [OF h, of "\<lparr>lm_x = 1 / 4, lm_y = 1 / 2\<rparr>"]
  have "map_with_margin_f64 CAMERA_MARGIN_f64 CAMERA_MARGIN_f64 = Inr 0"
    and "map_with_margin_f64 (1 - CAMERA_MARGIN_f64) CAMERA_MARGIN_f64 = Inr 1"
    by blast+
  then show ?thesis
    using h by (simp add: map_quarter pixel_quarter)
qed

end
